theory Spec2Isabelle
  imports Complex_Main
begin

section \<open>CutMix: the bounding-box sampler\<close>

text \<open>
  Source: \<^verbatim>\<open>examples/vision/ipynb/cutmix.ipynb\<close>, function \<^verbatim>\<open>get_box\<close>.

  Tensors of dtype \<^verbatim>\<open>int32\<close> are modelled as \<open>int\<close>: with \<^verbatim>\<open>IMG_SIZE = 32\<close> (and for
  every image size up to \<open>2 ^ 30\<close>) all intermediate values of \<^verbatim>\<open>get_box\<close> lie between
  \<open>- IMG_SIZE\<close> and \<open>2 * IMG_SIZE\<close>, so no 32-bit operation wraps (lemma
  \<open>get_box_int32_range\<close> below). Tensors of dtype
  \<^verbatim>\<open>float32\<close> are modelled as \<open>real\<close> (exact arithmetic). The two draws of
  \<^verbatim>\<open>tf.random.uniform\<close> are arguments of the model; the source draws them from
  \<open>{0 ..< IMG_SIZE}\<close>. The global \<^verbatim>\<open>IMG_SIZE\<close> that \<^verbatim>\<open>get_box\<close> and \<^verbatim>\<open>cutmix\<close> read
  is the first argument \<open>img_size\<close> of their models; the notebook's value is the constant
  \<open>IMG_SIZE\<close> below.
\<close>

definition IMG_SIZE :: int where
  "IMG_SIZE = 32"

definition cast_int32 :: "real \<Rightarrow> int" where
  \<comment> \<open>\<^verbatim>\<open>tf.cast(v, tf.int32)\<close> of a float: truncation towards zero.\<close>
  "cast_int32 v = (if 0 \<le> v then \<lfloor>v\<rfloor> else \<lceil>v\<rceil>)"

definition clip_by_value :: "int \<Rightarrow> int \<Rightarrow> int \<Rightarrow> int" where
  \<comment> \<open>\<^verbatim>\<open>tf.clip_by_value(t, clip_value_min, clip_value_max)\<close>.\<close>
  "clip_by_value t clip_value_min clip_value_max = max (min t clip_value_max) clip_value_min"

definition cut_rat_of :: "real \<Rightarrow> real" where
  \<comment> \<open>\<^verbatim>\<open>cut_rat = tf.math.sqrt(1.0 - lambda_value)\<close>\<close>
  "cut_rat_of lambda_value = sqrt (1 - lambda_value)"

definition cut_len :: "int \<Rightarrow> real \<Rightarrow> int" where
  \<comment> \<open>\<^verbatim>\<open>cut_w = tf.cast(IMG_SIZE * cut_rat, tf.int32)\<close>; \<^verbatim>\<open>cut_h\<close> is computed the same way.\<close>
  "cut_len img_size lambda_value = cast_int32 (real_of_int img_size * cut_rat_of lambda_value)"

definition get_box :: "int \<Rightarrow> real \<Rightarrow> int \<Rightarrow> int \<Rightarrow> int \<times> int \<times> int \<times> int" where
  "get_box img_size lambda_value cut_x cut_y =
     (let cut_w = cut_len img_size lambda_value;
          cut_h = cut_len img_size lambda_value;
          boundaryx1 = clip_by_value (cut_x - cut_w div 2) 0 img_size;
          boundaryy1 = clip_by_value (cut_y - cut_h div 2) 0 img_size;
          bbx2 = clip_by_value (cut_x + cut_w div 2) 0 img_size;
          bby2 = clip_by_value (cut_y + cut_h div 2) 0 img_size;
          target_h = bby2 - boundaryy1;
          target_h = (if target_h = 0 then target_h + 1 else target_h);
          target_w = bbx2 - boundaryx1;
          target_w = (if target_w = 0 then target_w + 1 else target_w)
      in (boundaryx1, boundaryy1, target_h, target_w))"

section \<open>CutMix: combining two samples\<close>

text \<open>
  Source: \<^verbatim>\<open>examples/vision/ipynb/cutmix.ipynb\<close>, functions
  \<^verbatim>\<open>sample_beta_distribution\<close> and \<^verbatim>\<open>cutmix\<close>.

  An image is a dense rank-3 tensor \<open>height \<times> width \<times> channels\<close>, modelled as nested lists
  (rows of pixels of channel values); a label is a rank-1 tensor. A tensor is rectangular,
  which \<open>is_image\<close> states for the nested lists. The framework operations the source calls
  (\<^verbatim>\<open>tf.image.crop_to_bounding_box\<close>, \<^verbatim>\<open>tf.image.pad_to_bounding_box\<close>, the broadcasting
  \<^verbatim>\<open>+\<close>, \<^verbatim>\<open>-\<close>, \<^verbatim>\<open>*\<close>) are modelled after their documented behaviour, with the argument
  checks that make them raise.
\<close>

type_synonym image = "real list list list"

type_synonym label = "real list"

datatype error = Value_Error | Incompatible_Shapes | Index_Error | Unbound_Local_Error | Not_A_Number

definition then_do :: "error + 'a \<Rightarrow> ('a \<Rightarrow> error + 'b) \<Rightarrow> error + 'b" where
  \<comment> \<open>Sequencing of two steps: an exception of the first step ends the function.\<close>
  "then_do m f = (case m of Inl e \<Rightarrow> Inl e | Inr v \<Rightarrow> f v)"

definition img_height :: "image \<Rightarrow> nat" where
  "img_height img = length img"

definition img_width :: "image \<Rightarrow> nat" where
  "img_width img = (case img of [] \<Rightarrow> 0 | row # _ \<Rightarrow> length row)"

definition img_depth :: "image \<Rightarrow> nat" where
  "img_depth img = (case img of [] \<Rightarrow> 0 | row # _ \<Rightarrow> (case row of [] \<Rightarrow> 0 | px # _ \<Rightarrow> length px))"

definition is_image :: "nat \<Rightarrow> nat \<Rightarrow> nat \<Rightarrow> image \<Rightarrow> bool" where
  "is_image h w c img \<longleftrightarrow>
     length img = h \<and> (\<forall>row \<in> set img. length row = w \<and> (\<forall>px \<in> set row. length px = c))"

definition crop_to_bounding_box :: "image \<Rightarrow> int \<Rightarrow> int \<Rightarrow> int \<Rightarrow> int \<Rightarrow> error + image" where
  \<comment> \<open>\<^verbatim>\<open>tf.image.crop_to_bounding_box\<close>: the slice
      \<^verbatim>\<open>image[oh : oh + th, ow : ow + tw, :]\<close>, after the checks of the arguments.\<close>
  "crop_to_bounding_box image_t offset_height offset_width target_height target_width =
     (if offset_width < 0 \<or> offset_height < 0 \<or> target_width \<le> 0 \<or> target_height \<le> 0
         \<or> int (img_width image_t) < target_width + offset_width
         \<or> int (img_height image_t) < target_height + offset_height
      then Inl Value_Error
      else Inr (map (\<lambda>row. take (nat target_width) (drop (nat offset_width) row))
                  (take (nat target_height) (drop (nat offset_height) image_t))))"

definition pad_to_bounding_box :: "image \<Rightarrow> int \<Rightarrow> int \<Rightarrow> int \<Rightarrow> int \<Rightarrow> error + image" where
  \<comment> \<open>\<^verbatim>\<open>tf.image.pad_to_bounding_box\<close>: zeros above, below, left and right of the image.\<close>
  "pad_to_bounding_box image_t offset_height offset_width target_height target_width =
     (let height = int (img_height image_t);
          width = int (img_width image_t);
          zero_px = replicate (img_depth image_t) (0::real);
          after_padding_width = target_width - offset_width - width;
          after_padding_height = target_height - offset_height - height
      in if offset_height < 0 \<or> offset_width < 0
            \<or> after_padding_width < 0 \<or> after_padding_height < 0
         then Inl Value_Error
         else Inr (replicate (nat offset_height) (replicate (nat target_width) zero_px)
                   @ map (\<lambda>row. replicate (nat offset_width) zero_px @ row
                                 @ replicate (nat after_padding_width) zero_px) image_t
                   @ replicate (nat after_padding_height) (replicate (nat target_width) zero_px)))"

definition broadcast_dim :: "nat \<Rightarrow> nat \<Rightarrow> nat option" where
  \<comment> \<open>The common extent of one axis of two operands, if there is one.\<close>
  "broadcast_dim m n =
     (if m = n then Some m else if m = 1 then Some n else if n = 1 then Some m else None)"

definition bsel :: "nat \<Rightarrow> nat \<Rightarrow> nat" where
  \<comment> \<open>The index read on an axis of extent \<open>m\<close>: an axis of extent 1 is repeated.\<close>
  "bsel m i = (if m = 1 then 0 else i)"

definition image_binop :: "(real \<Rightarrow> real \<Rightarrow> real) \<Rightarrow> image \<Rightarrow> image \<Rightarrow> error + image" where
  \<comment> \<open>An element-wise operator on two rank-3 tensors, with broadcasting.\<close>
  "image_binop f a b =
     (case (broadcast_dim (img_height a) (img_height b),
            broadcast_dim (img_width a) (img_width b),
            broadcast_dim (img_depth a) (img_depth b)) of
        (Some h, Some w, Some c) \<Rightarrow>
          Inr (map (\<lambda>i. map (\<lambda>j. map (\<lambda>k.
                 f (a ! bsel (img_height a) i ! bsel (img_width a) j ! bsel (img_depth a) k)
                   (b ! bsel (img_height b) i ! bsel (img_width b) j ! bsel (img_depth b) k))
                 [0..<c]) [0..<w]) [0..<h])
      | _ \<Rightarrow> Inl Incompatible_Shapes)"

definition label_add :: "label \<Rightarrow> label \<Rightarrow> error + label" where
  \<comment> \<open>\<^verbatim>\<open>+\<close> on two rank-1 tensors, with broadcasting.\<close>
  "label_add a b =
     (case broadcast_dim (length a) (length b) of
        Some n \<Rightarrow> Inr (map (\<lambda>i. a ! bsel (length a) i + b ! bsel (length b) i) [0..<n])
      | None \<Rightarrow> Inl Incompatible_Shapes)"

definition label_scale :: "real \<Rightarrow> label \<Rightarrow> label" where
  \<comment> \<open>A scalar times a rank-1 tensor.\<close>
  "label_scale r a = map (\<lambda>v. r * v) a"

definition sample_beta_distribution :: "real \<Rightarrow> real \<Rightarrow> real" where
  \<comment> \<open>The two draws of \<^verbatim>\<open>tf.random.gamma\<close> are the arguments.\<close>
  "sample_beta_distribution gamma_1_sample gamma_2_sample =
     gamma_1_sample / (gamma_1_sample + gamma_2_sample)"

definition cutmix ::
  "int \<Rightarrow> image \<times> label \<Rightarrow> image \<times> label \<Rightarrow> real \<Rightarrow> real \<Rightarrow> int \<Rightarrow> int
     \<Rightarrow> error + image \<times> label" where
  "cutmix img_size train_ds_one train_ds_two gamma_1_sample gamma_2_sample cut_x cut_y =
     (case (train_ds_one, train_ds_two) of ((image1, label1), (image2, label2)) \<Rightarrow>
      (let lambda_value = sample_beta_distribution gamma_1_sample gamma_2_sample in
       case get_box img_size lambda_value cut_x cut_y of
         (boundaryx1, boundaryy1, target_h, target_w) \<Rightarrow>
       then_do (crop_to_bounding_box image2 boundaryy1 boundaryx1 target_h target_w) (\<lambda>crop2.
       then_do (pad_to_bounding_box crop2 boundaryy1 boundaryx1 img_size img_size) (\<lambda>image2.
       then_do (crop_to_bounding_box image1 boundaryy1 boundaryx1 target_h target_w) (\<lambda>crop1.
       then_do (pad_to_bounding_box crop1 boundaryy1 boundaryx1 img_size img_size) (\<lambda>img1.
       then_do (image_binop (-) image1 img1) (\<lambda>image1.
       then_do (image_binop (+) image1 image2) (\<lambda>image_t.
       let lambda_value =
             1 - real_of_int (target_w * target_h) / real_of_int (img_size * img_size) in
       then_do (label_add (label_scale lambda_value label1)
                          (label_scale (1 - lambda_value) label2)) (\<lambda>label.
       Inr (image_t, label))))))))))"

text \<open>
  The pixels of row \<open>i\<close> and column \<open>j\<close> that lie inside a box \<open>(x, y, height, width)\<close>.
\<close>

definition in_box :: "int \<times> int \<times> int \<times> int \<Rightarrow> nat \<Rightarrow> nat \<Rightarrow> bool" where
  "in_box box i j =
     (case box of (x, y, height, width) \<Rightarrow>
        y \<le> int i \<and> int i < y + height \<and> x \<le> int j \<and> int j < x + width)"

text \<open>
  The label blend in the words of the specification: the effective mixing ratio is one minus
  the area of the returned box over the area of the image, and the labels are blended
  entry by entry with that ratio.
\<close>

definition effective_ratio :: "int \<Rightarrow> int \<times> int \<times> int \<times> int \<Rightarrow> real" where
  "effective_ratio img_size box =
     (case box of (x, y, height, width) \<Rightarrow>
        1 - real_of_int (height * width) / real_of_int (img_size * img_size))"

definition blend_labels :: "real \<Rightarrow> label \<Rightarrow> label \<Rightarrow> label" where
  "blend_labels r label1 label2 = map2 (\<lambda>a b. r * a + (1 - r) * b) label1 label2"

section \<open>WGAN-GP: gradient penalty and training step\<close>

text \<open>
  Source: \<^verbatim>\<open>examples/generative/ipynb/wgan_gp.ipynb\<close>, class \<^verbatim>\<open>WGAN\<close> and the functions
  \<^verbatim>\<open>discriminator_loss\<close> and \<^verbatim>\<open>generator_loss\<close>.

  A batch of images is a rank-4 tensor, a list of images. The trainable variables of a
  network are a list of reals. What the framework provides is a field of the record
  \<open>wgan\<close>: the forward passes of the two networks as functions of their trainable variables,
  the two optimizers (\<^verbatim>\<open>apply_gradients\<close> maps the optimizer's slots and the list of pairs
  of gradient and variable to new slots and new variables), automatic differentiation
  (\<open>input_gradient\<close> for \<^verbatim>\<open>gp_tape.gradient(pred, [interpolated])[0]\<close>, \<open>variable_gradient\<close>
  for \<^verbatim>\<open>tape.gradient(loss, trainable_variables)\<close>, both applied to the taped computation as
  a function), and the outcomes \<open>normal_draws\<close> of the standard normal generator behind
  \<^verbatim>\<open>tf.random.normal\<close>, numbered in the order they are drawn. The state that a training step
  reads and writes is the record \<open>wgan_state\<close>. A forward pass reads the variables only;
  the randomness of dropout layers and the statistics of batch normalisation are not
  modelled. A float that is not a number (the mean of an empty tensor) is the error
  \<open>Not_A_Number\<close>.
\<close>

type_synonym batch = "image list"

type_synonym variables = "real list"

record 'os wgan =
  discriminator :: "variables \<Rightarrow> batch \<Rightarrow> real list"
  generator :: "variables \<Rightarrow> real list list \<Rightarrow> batch"
  latent_dim :: nat
  d_steps :: nat
  gp_weight :: real
  d_optimizer :: "'os \<Rightarrow> (real \<times> real) list \<Rightarrow> 'os \<times> variables"
  g_optimizer :: "'os \<Rightarrow> (real \<times> real) list \<Rightarrow> 'os \<times> variables"
  d_loss_fn :: "real list \<Rightarrow> real list \<Rightarrow> error + real"
  g_loss_fn :: "real list \<Rightarrow> error + real"
  input_gradient :: "(batch \<Rightarrow> real list) \<Rightarrow> batch \<Rightarrow> batch"
  variable_gradient :: "(variables \<Rightarrow> error + real) \<Rightarrow> variables \<Rightarrow> real list"
  normal_draws :: "nat \<Rightarrow> real"

record 'os wgan_state =
  d_vars :: variables
  g_vars :: variables
  d_opt_state :: 'os
  g_opt_state :: 'os
  rng_pos :: nat

datatype 'x train_data = Images batch | Tuple "'x train_data list" | Other 'x

definition batch_height :: "batch \<Rightarrow> nat" where
  "batch_height xs = (case xs of [] \<Rightarrow> 0 | img # _ \<Rightarrow> img_height img)"

definition batch_width :: "batch \<Rightarrow> nat" where
  "batch_width xs = (case xs of [] \<Rightarrow> 0 | img # _ \<Rightarrow> img_width img)"

definition batch_depth :: "batch \<Rightarrow> nat" where
  "batch_depth xs = (case xs of [] \<Rightarrow> 0 | img # _ \<Rightarrow> img_depth img)"

definition is_batch :: "nat \<Rightarrow> nat \<Rightarrow> nat \<Rightarrow> nat \<Rightarrow> batch \<Rightarrow> bool" where
  "is_batch n h w c xs \<longleftrightarrow> length xs = n \<and> (\<forall>img \<in> set xs. is_image h w c img)"

definition batch_binop :: "(real \<Rightarrow> real \<Rightarrow> real) \<Rightarrow> batch \<Rightarrow> batch \<Rightarrow> error + batch" where
  \<comment> \<open>An element-wise operator on two rank-4 tensors, with broadcasting.\<close>
  "batch_binop f a b =
     (case (broadcast_dim (length a) (length b),
            broadcast_dim (batch_height a) (batch_height b),
            broadcast_dim (batch_width a) (batch_width b),
            broadcast_dim (batch_depth a) (batch_depth b)) of
        (Some n, Some h, Some w, Some c) \<Rightarrow>
          Inr (map (\<lambda>e. map (\<lambda>i. map (\<lambda>j. map (\<lambda>k.
                 f (a ! bsel (length a) e ! bsel (batch_height a) i
                      ! bsel (batch_width a) j ! bsel (batch_depth a) k)
                   (b ! bsel (length b) e ! bsel (batch_height b) i
                      ! bsel (batch_width b) j ! bsel (batch_depth b) k))
                 [0..<c]) [0..<w]) [0..<h]) [0..<n])
      | _ \<Rightarrow> Inl Incompatible_Shapes)"

definition random_normal ::
  "'os wgan \<Rightarrow> nat \<Rightarrow> real \<Rightarrow> real \<Rightarrow> 'os wgan_state \<Rightarrow> real list \<times> 'os wgan_state" where
  \<comment> \<open>\<^verbatim>\<open>tf.random.normal\<close> for a tensor of \<open>n\<close> elements: the next \<open>n\<close> outcomes of the
      standard normal generator, scaled by \<open>stddev\<close> and shifted by \<open>mean\<close>.\<close>
  "random_normal m n mean stddev s =
     (map (\<lambda>k. mean + stddev * normal_draws m k) [rng_pos s ..< rng_pos s + n],
      s\<lparr>rng_pos := rng_pos s + n\<rparr>)"

definition reshape_rows :: "nat \<Rightarrow> nat \<Rightarrow> real list \<Rightarrow> real list list" where
  \<comment> \<open>The elements of a tensor of shape \<open>(rows, cols)\<close>, row by row.\<close>
  "reshape_rows rows cols zs = map (\<lambda>r. take cols (drop (r * cols) zs)) [0..<rows]"

definition reduce_mean :: "real list \<Rightarrow> error + real" where
  \<comment> \<open>\<^verbatim>\<open>tf.reduce_mean\<close> over all elements.\<close>
  "reduce_mean xs = (if xs = [] then Inl Not_A_Number else Inr (sum_list xs / real (length xs)))"

definition reduce_sum_square :: "image \<Rightarrow> real" where
  \<comment> \<open>\<^verbatim>\<open>tf.reduce_sum(tf.square(grads), axis=[1, 2, 3])\<close> for one element of the batch.\<close>
  "reduce_sum_square g =
     sum_list (map (\<lambda>row. sum_list (map (\<lambda>px. sum_list (map (\<lambda>v. v * v) px)) row)) g)"

definition discriminator_loss :: "real list \<Rightarrow> real list \<Rightarrow> error + real" where
  "discriminator_loss real_img fake_img =
     then_do (reduce_mean real_img) (\<lambda>real_loss.
     then_do (reduce_mean fake_img) (\<lambda>fake_loss.
     Inr (fake_loss - real_loss)))"

definition generator_loss :: "real list \<Rightarrow> error + real" where
  "generator_loss fake_img = then_do (reduce_mean fake_img) (\<lambda>mean_fake. Inr (- mean_fake))"

definition interpolate ::
  "'os wgan \<Rightarrow> nat \<Rightarrow> batch \<Rightarrow> batch \<Rightarrow> 'os wgan_state \<Rightarrow> error + batch \<times> 'os wgan_state" where
  \<comment> \<open>The first three statements of \<^verbatim>\<open>gradient_penalty\<close>: \<open>alpha\<close> has the shape
      \<open>[batch_size, 1, 1, 1]\<close>.\<close>
  "interpolate m batch_size real_images fake_images s =
     (case random_normal m batch_size 0 1 s of (zs, s') \<Rightarrow>
      let alpha = map (\<lambda>a. [[[a]]]) zs in
      then_do (batch_binop (-) fake_images real_images) (\<lambda>diff.
      then_do (batch_binop (*) alpha diff) (\<lambda>alpha_diff.
      then_do (batch_binop (+) real_images alpha_diff) (\<lambda>interpolated.
      Inr (interpolated, s')))))"

definition gradient_penalty ::
  "'os wgan \<Rightarrow> nat \<Rightarrow> batch \<Rightarrow> batch \<Rightarrow> 'os wgan_state \<Rightarrow> error + real \<times> 'os wgan_state" where
  "gradient_penalty m batch_size real_images fake_images s =
     then_do (interpolate m batch_size real_images fake_images s) (\<lambda>(interpolated, s').
     let grads = input_gradient m (discriminator m (d_vars s')) interpolated;
         norm = map (\<lambda>g. sqrt (reduce_sum_square g)) grads
     in then_do (reduce_mean (map (\<lambda>n. (n - 1) ^ 2) norm)) (\<lambda>gp.
        Inr (gp, s')))"

definition d_forward ::
  "'os wgan \<Rightarrow> nat \<Rightarrow> batch \<Rightarrow> batch \<Rightarrow> 'os wgan_state \<Rightarrow> error + real \<times> 'os wgan_state" where
  \<comment> \<open>The taped computation of the discriminator phase once the fake images exist, run
      with the discriminator variables of the state: the loss \<open>d_loss\<close>.\<close>
  "d_forward m batch_size real_images fake_images s =
     (let fake_logits = discriminator m (d_vars s) fake_images;
          real_logits = discriminator m (d_vars s) real_images
      in then_do (d_loss_fn m real_logits fake_logits) (\<lambda>d_cost.
         then_do (gradient_penalty m batch_size real_images fake_images s) (\<lambda>(gp, s').
         Inr (d_cost + gp * gp_weight m, s'))))"

definition d_step ::
  "'os wgan \<Rightarrow> nat \<Rightarrow> batch \<Rightarrow> 'os wgan_state \<Rightarrow> error + real \<times> 'os wgan_state" where
  \<comment> \<open>One pass of the body of \<^verbatim>\<open>for i in range(self.d_steps)\<close>.\<close>
  "d_step m batch_size real_images s =
     (case random_normal m (batch_size * latent_dim m) 0 1 s of (zs, s1) \<Rightarrow>
      let random_latent_vectors = reshape_rows batch_size (latent_dim m) zs;
          fake_images = generator m (g_vars s1) random_latent_vectors;
          tape = (\<lambda>vars. then_do (d_forward m batch_size real_images fake_images
                                     (s1\<lparr>d_vars := vars\<rparr>)) (\<lambda>(d_loss, _). Inr d_loss))
      in then_do (d_forward m batch_size real_images fake_images s1) (\<lambda>(d_loss, s2).
         let d_gradient = variable_gradient m tape (d_vars s2);
             (slots, vars) = d_optimizer m (d_opt_state s2) (zip d_gradient (d_vars s2))
         in Inr (d_loss, s2\<lparr>d_vars := vars, d_opt_state := slots\<rparr>)))"

fun d_loop ::
  "'os wgan \<Rightarrow> nat \<Rightarrow> batch \<Rightarrow> nat \<Rightarrow> real option \<times> 'os wgan_state
     \<Rightarrow> error + real option \<times> 'os wgan_state" where
  "d_loop m batch_size real_images 0 (d_loss, s) = Inr (d_loss, s)"
| "d_loop m batch_size real_images (Suc n) (d_loss, s) =
     then_do (d_step m batch_size real_images s) (\<lambda>(d_loss, s').
     d_loop m batch_size real_images n (Some d_loss, s'))"

definition g_step ::
  "'os wgan \<Rightarrow> nat \<Rightarrow> 'os wgan_state \<Rightarrow> error + real \<times> 'os wgan_state" where
  \<comment> \<open>The generator phase of \<^verbatim>\<open>train_step\<close>.\<close>
  "g_step m batch_size s =
     (case random_normal m (batch_size * latent_dim m) 0 1 s of (zs, s1) \<Rightarrow>
      let random_latent_vectors = reshape_rows batch_size (latent_dim m) zs;
          tape = (\<lambda>vars. g_loss_fn m (discriminator m (d_vars s1)
                                       (generator m vars random_latent_vectors)))
      in then_do (tape (g_vars s1)) (\<lambda>g_loss.
         let gen_gradient = variable_gradient m tape (g_vars s1);
             (slots, vars) = g_optimizer m (g_opt_state s1) (zip gen_gradient (g_vars s1))
         in Inr (g_loss, s1\<lparr>g_vars := vars, g_opt_state := slots\<rparr>)))"

definition first_component :: "'x train_data \<Rightarrow> error + 'x train_data" where
  \<comment> \<open>\<^verbatim>\<open>if isinstance(real_images, tuple): real_images = real_images[0]\<close>\<close>
  "first_component real_images =
     (case real_images of
        Tuple [] \<Rightarrow> Inl Index_Error
      | Tuple (x # _) \<Rightarrow> Inr x
      | _ \<Rightarrow> Inr real_images)"

definition train_step ::
  "'os wgan \<Rightarrow> 'x train_data \<Rightarrow> 'os wgan_state
     \<Rightarrow> error + (string \<rightharpoonup> real) \<times> 'os wgan_state" where
  \<comment> \<open>What follows the unpacking needs an image tensor; anything else is rejected by the
      framework calls.\<close>
  "train_step m real_images s =
     then_do (first_component real_images) (\<lambda>real_images.
     case real_images of
       Images real_images \<Rightarrow>
         (let batch_size = length real_images in
          then_do (d_loop m batch_size real_images (d_steps m) (None, s)) (\<lambda>(d_loss, s1).
          then_do (g_step m batch_size s1) (\<lambda>(g_loss, s2).
          case d_loss of
            None \<Rightarrow> Inl Unbound_Local_Error
          | Some d_loss \<Rightarrow> Inr ([''d_loss'' \<mapsto> d_loss, ''g_loss'' \<mapsto> g_loss], s2))))
     | _ \<Rightarrow> Inl Value_Error)"

text \<open>
  The gradient penalty in the words of the specification: the interpolated batch
  \<open>real + \<alpha> * (fake - real)\<close> with one coefficient per element of the batch, and the mean
  over the batch of \<open>(norm - 1)\<^sup>2\<close>, where \<open>norm\<close> is the L2 norm of the gradient of one
  element, flattened over its three axes.
\<close>

definition interpolation :: "real list \<Rightarrow> batch \<Rightarrow> batch \<Rightarrow> batch" where
  "interpolation alpha real_images fake_images =
     map (\<lambda>e. map (\<lambda>i. map (\<lambda>j. map (\<lambda>k.
         real_images ! e ! i ! j ! k
           + alpha ! e * (fake_images ! e ! i ! j ! k - real_images ! e ! i ! j ! k))
       [0..<batch_depth real_images]) [0..<batch_width real_images])
       [0..<batch_height real_images]) [0..<length real_images]"

definition flatten :: "image \<Rightarrow> real list" where
  "flatten g = concat (concat g)"

definition l2_norm :: "real list \<Rightarrow> real" where
  "l2_norm v = sqrt (\<Sum>x\<leftarrow>v. x\<^sup>2)"

definition mean :: "real list \<Rightarrow> real" where
  "mean xs = sum_list xs / real (length xs)"

definition penalty :: "batch \<Rightarrow> real" where
  "penalty grads = mean (map (\<lambda>g. (l2_norm (flatten g) - 1)\<^sup>2) grads)"

text \<open>
  The two phases of a training step in the words of the specification. A discriminator
  phase draws fresh latent noise and fresh interpolation coefficients, and makes one
  optimizer step on \<open>mean fake_score - mean real_score + gp_weight * penalty\<close>; the
  generator phase draws fresh latent noise and makes one optimizer step on
  \<open>- mean fake_score\<close>.
\<close>

definition latent_noise :: "'os wgan \<Rightarrow> nat \<Rightarrow> nat \<Rightarrow> real list list" where
  "latent_noise m n pos =
     reshape_rows n (latent_dim m) (map (normal_draws m) [pos ..< pos + n * latent_dim m])"

definition critic_objective ::
  "'os wgan \<Rightarrow> batch \<Rightarrow> batch \<Rightarrow> real list \<Rightarrow> variables \<Rightarrow> real" where
  "critic_objective m real_images fake_images alpha vars =
     mean (discriminator m vars fake_images) - mean (discriminator m vars real_images)
       + gp_weight m * penalty (input_gradient m (discriminator m vars)
                                  (interpolation alpha real_images fake_images))"

definition discriminator_phase ::
  "'os wgan \<Rightarrow> batch \<Rightarrow> 'os wgan_state \<Rightarrow> real \<times> 'os wgan_state" where
  "discriminator_phase m real_images s =
     (let n = length real_images;
          pos = rng_pos s;
          fake_images = generator m (g_vars s) (latent_noise m n pos);
          alpha = map (normal_draws m) [pos + n * latent_dim m ..< pos + n * latent_dim m + n];
          objective = critic_objective m real_images fake_images alpha;
          gradient = variable_gradient m (\<lambda>vars. Inr (objective vars)) (d_vars s);
          (slots, vars) = d_optimizer m (d_opt_state s) (zip gradient (d_vars s))
      in (objective (d_vars s),
          s\<lparr>d_vars := vars, d_opt_state := slots, rng_pos := pos + n * latent_dim m + n\<rparr>))"

fun discriminator_phases ::
  "'os wgan \<Rightarrow> batch \<Rightarrow> nat \<Rightarrow> 'os wgan_state \<Rightarrow> real list \<times> 'os wgan_state" where
  "discriminator_phases m real_images 0 s = ([], s)"
| "discriminator_phases m real_images (Suc k) s =
     (case discriminator_phase m real_images s of (loss, s') \<Rightarrow>
      case discriminator_phases m real_images k s' of (losses, s'') \<Rightarrow> (loss # losses, s''))"

definition generator_objective ::
  "'os wgan \<Rightarrow> real list list \<Rightarrow> variables \<Rightarrow> variables \<Rightarrow> real" where
  "generator_objective m noise discriminator_vars vars =
     - mean (discriminator m discriminator_vars (generator m vars noise))"

definition generator_phase :: "'os wgan \<Rightarrow> nat \<Rightarrow> 'os wgan_state \<Rightarrow> real \<times> 'os wgan_state" where
  "generator_phase m n s =
     (let pos = rng_pos s;
          objective = generator_objective m (latent_noise m n pos) (d_vars s);
          gradient = variable_gradient m (\<lambda>vars. Inr (objective vars)) (g_vars s);
          (slots, vars) = g_optimizer m (g_opt_state s) (zip gradient (g_vars s))
      in (objective (g_vars s),
          s\<lparr>g_vars := vars, g_opt_state := slots, rng_pos := pos + n * latent_dim m\<rparr>))"

text \<open>
  A synthetic instance for the worked examples: a discriminator that is linear in the
  pixels (the weight is the sum of its variables, so its gradient at every pixel is that
  weight), a generator that makes one pixel of each latent vector, optimizers that take a
  plain gradient step, and a random source whose \<open>k\<close>-th outcome is \<open>k - 1/2\<close>.
\<close>

definition example_wgan :: "unit wgan" where
  "example_wgan =
     \<lparr>discriminator = (\<lambda>vars xs. map (\<lambda>img. sum_list vars * sum_list (flatten img)) xs),
      generator = (\<lambda>vars z. map (\<lambda>row. [[[sum_list vars * sum_list row]]]) z),
      latent_dim = 1,
      d_steps = 3,
      gp_weight = 10,
      d_optimizer = (\<lambda>slots gv. (slots, map (\<lambda>(g, v). v - g / 2) gv)),
      g_optimizer = (\<lambda>slots gv. (slots, map (\<lambda>(g, v). v - g / 2) gv)),
      d_loss_fn = discriminator_loss,
      g_loss_fn = generator_loss,
      input_gradient = (\<lambda>f xs. map (map (map (map (\<lambda>_. sum_list (f [[[[1]]]]))))) xs),
      variable_gradient = (\<lambda>f vars. map (\<lambda>_. 1) vars),
      normal_draws = (\<lambda>k. real k - 1 / 2)\<rparr>"

definition frozen_wgan :: "unit wgan" where
  \<comment> \<open>The same instance with optimizers that return the variables as they are.\<close>
  "frozen_wgan =
     example_wgan\<lparr>d_optimizer := (\<lambda>slots gv. (slots, map snd gv)),
                  g_optimizer := (\<lambda>slots gv. (slots, map snd gv))\<rparr>"

definition example_state :: "unit wgan_state" where
  "example_state = \<lparr>d_vars = [1], g_vars = [1], d_opt_state = (), g_opt_state = (), rng_pos = 0\<rparr>"

definition example_images :: batch where
  "example_images = [[[[2]]], [[[4]]]]"

section \<open>Properties of the bounding-box sampler\<close>

subsection \<open>Properties of the box\<close>

lemma cut_len_nonneg:
  assumes "lambda_value \<le> 1" and "0 \<le> img_size"
  shows "0 \<le> cut_len img_size lambda_value"
  using assms by (simp add: cut_len_def cast_int32_def cut_rat_of_def)

lemma cut_len_le:
  assumes "0 \<le> lambda_value" and "lambda_value \<le> 1" and "0 \<le> img_size"
  shows "cut_len img_size lambda_value \<le> img_size"
proof -
  have "sqrt (1 - lambda_value) \<le> 1"
    using assms by simp
  then have "real_of_int img_size * sqrt (1 - lambda_value) \<le> real_of_int img_size"
    using assms(3) by (simp add: mult_left_le)
  moreover have "0 \<le> real_of_int img_size * sqrt (1 - lambda_value)"
    using assms by simp
  ultimately show ?thesis
    by (simp add: cut_len_def cast_int32_def cut_rat_of_def floor_le_iff)
qed

lemma get_box_int32_range:
  assumes "0 \<le> lambda_value" and "lambda_value \<le> 1"
    and "0 < img_size" and "img_size \<le> 2 ^ 30"
    and "0 \<le> cut_x" and "cut_x < img_size"
  shows "- (2 ^ 31) \<le> cut_x - cut_len img_size lambda_value div 2"
    and "cut_x + cut_len img_size lambda_value div 2 < 2 ^ 31"
proof -
  have "0 \<le> cut_len img_size lambda_value" "cut_len img_size lambda_value \<le> img_size"
    using cut_len_nonneg[of lambda_value img_size] cut_len_le[of lambda_value img_size] assms
    by simp_all
  then have "0 \<le> cut_len img_size lambda_value div 2"
    "cut_len img_size lambda_value div 2 \<le> img_size"
    by linarith+
  then show "- (2 ^ 31) \<le> cut_x - cut_len img_size lambda_value div 2"
    and "cut_x + cut_len img_size lambda_value div 2 < 2 ^ 31"
    using assms(4,5,6) by simp_all
qed

lemma clip_edges:
  assumes "0 \<le> c" and "c < S" and "0 \<le> d"
  shows "0 \<le> clip_by_value (c - d) 0 S"
    and "clip_by_value (c - d) 0 S \<le> c"
    and "c \<le> clip_by_value (c + d) 0 S"
    and "clip_by_value (c + d) 0 S \<le> S"
    and "d = 0 \<Longrightarrow> clip_by_value (c - d) 0 S = c \<and> clip_by_value (c + d) 0 S = c"
    and "0 < d \<Longrightarrow> clip_by_value (c - d) 0 S < clip_by_value (c + d) 0 S"
  using assms by (auto simp: clip_by_value_def)

lemma box_side:
  assumes "0 \<le> c" and "c < S" and "0 \<le> d"
  defines "lo \<equiv> clip_by_value (c - d) 0 S"
    and "hi \<equiv> clip_by_value (c + d) 0 S"
  defines "t \<equiv> (if hi - lo = 0 then hi - lo + 1 else hi - lo)"
  shows "0 \<le> lo \<and> lo \<le> lo + t \<and> lo + t \<le> S \<and> 1 \<le> t"
proof (cases "d = 0")
  case True
  then have "lo = c" "hi = c"
    using clip_edges(5)[OF assms(1-3)] by (simp_all add: lo_def hi_def)
  then show ?thesis
    using assms(1,2) by (simp add: t_def)
next
  case False
  then have "lo < hi"
    using clip_edges(6)[OF assms(1-3)] assms(3) by (simp add: lo_def hi_def)
  moreover have "0 \<le> lo" "hi \<le> S"
    using clip_edges(1,4)[OF assms(1-3)] by (simp_all add: lo_def hi_def)
  ultimately show ?thesis
    by (simp add: t_def)
qed

lemma get_box_bounds:
  assumes "0 \<le> lambda_value" and "lambda_value \<le> 1"
    and "0 < img_size"
    and "0 \<le> cut_x" and "cut_x < img_size"
    and "0 \<le> cut_y" and "cut_y < img_size"
    and "get_box img_size lambda_value cut_x cut_y = (x, y, height, width)"
  shows "0 \<le> x \<and> x \<le> x + width \<and> x + width \<le> img_size
       \<and> 0 \<le> y \<and> y \<le> y + height \<and> y + height \<le> img_size
       \<and> 1 \<le> width \<and> 1 \<le> height"
proof -
  define d where "d = cut_len img_size lambda_value div 2"
  have d0: "0 \<le> d"
    using cut_len_nonneg[of lambda_value img_size] assms(2,3) by (simp add: d_def)
  define X where "X = clip_by_value (cut_x - d) 0 img_size"
  define Y where "Y = clip_by_value (cut_y - d) 0 img_size"
  define W where "W = (if clip_by_value (cut_x + d) 0 img_size - X = 0
    then clip_by_value (cut_x + d) 0 img_size - X + 1 else clip_by_value (cut_x + d) 0 img_size - X)"
  define H where "H = (if clip_by_value (cut_y + d) 0 img_size - Y = 0
    then clip_by_value (cut_y + d) 0 img_size - Y + 1 else clip_by_value (cut_y + d) 0 img_size - Y)"
  have "get_box img_size lambda_value cut_x cut_y = (X, Y, H, W)"
    unfolding get_box_def Let_def d_def X_def Y_def H_def W_def by (rule refl)
  with assms(8) have eqs: "x = X" "y = Y" "height = H" "width = W"
    by simp_all
  have "0 \<le> X \<and> X \<le> X + W \<and> X + W \<le> img_size \<and> 1 \<le> W"
    using box_side[OF assms(4,5) d0] unfolding X_def W_def by simp
  moreover have "0 \<le> Y \<and> Y \<le> Y + H \<and> Y + H \<le> img_size \<and> 1 \<le> H"
    using box_side[OF assms(6,7) d0] unfolding Y_def H_def by simp
  ultimately show ?thesis
    unfolding eqs by simp
qed

text \<open>
  Claim C1. For every mixing ratio in \<open>[0, 1]\<close>, every positive image size and every
  outcome of the two centre draws in \<open>{0 ..< img_size}\<close>, the box \<open>(x, y, height, width)\<close>
  returned by \<^verbatim>\<open>get_box\<close> satisfies \<open>0 \<le> x \<le> x + width \<le> img_size\<close>,
  \<open>0 \<le> y \<le> y + height \<le> img_size\<close>, \<open>1 \<le> width\<close> and \<open>1 \<le> height\<close>.
\<close>

theorem get_box_within_image:
  assumes "0 \<le> lambda_value" and "lambda_value \<le> 1"
    and "0 < img_size"
    and "0 \<le> cut_x" and "cut_x < img_size"
    and "0 \<le> cut_y" and "cut_y < img_size"
    and "get_box img_size lambda_value cut_x cut_y = (x, y, height, width)"
  shows "0 \<le> x \<and> x \<le> x + width \<and> x + width \<le> img_size
       \<and> 0 \<le> y \<and> y \<le> y + height \<and> y + height \<le> img_size
       \<and> 1 \<le> width \<and> 1 \<le> height"
  using assms by (rule get_box_bounds)

theorem get_box_within_image_witness:
  "(0::real) \<le> 0 \<and> (0::real) \<le> 1 \<and> (0::int) < 32 \<and> (0::int) \<le> 3 \<and> (3::int) < 32
   \<and> (0::int) \<le> 30 \<and> (30::int) < 32
   \<and> get_box 32 0 3 30 = (0, 14, 18, 19)
   \<and> (0::int) \<le> 0 \<and> (0::int) \<le> 0 + 19 \<and> (0::int) + 19 \<le> 32
   \<and> (0::int) \<le> 14 \<and> (14::int) \<le> 14 + 18 \<and> (14::int) + 18 \<le> 32
   \<and> (1::int) \<le> 19 \<and> (1::int) \<le> 18"
proof -
  have "cut_len 32 0 = 32"
    by (simp add: cut_len_def cut_rat_of_def cast_int32_def)
  then have box: "get_box 32 0 3 30 = (0, 14, 18, 19)"
    unfolding get_box_def Let_def clip_by_value_def by simp
  show ?thesis
    using get_box_within_image[of 0 32 3 30 0 14 18 19] box by simp
qed

subsection \<open>The worked example of the notebook's image size\<close>

lemma sqrt_half_bounds:
  shows "707 / 1000 < sqrt (1 / 2)" and "sqrt (1 / 2) < 708 / 1000"
    and "22 / 32 \<le> sqrt (1 / 2)" and "sqrt (1 / 2) < 23 / 32"
proof -
  show "707 / 1000 < sqrt (1 / 2)"
    by (rule real_less_rsqrt) (simp add: power2_eq_square)
  show "sqrt (1 / 2) < 708 / 1000"
    by (rule real_less_lsqrt) (simp_all add: power2_eq_square)
  show "22 / 32 \<le> sqrt (1 / 2)"
    by (rule real_le_rsqrt) (simp add: power2_eq_square)
  show "sqrt (1 / 2) < 23 / 32"
    by (rule real_less_lsqrt) (simp_all add: power2_eq_square)
qed

lemma cut_len_32_half: "cut_len 32 (1 / 2) = 22"
proof -
  have "22 \<le> 32 * sqrt (1 / 2)" "32 * sqrt (1 / 2) < 23"
    using sqrt_half_bounds(3,4) by linarith+
  then show ?thesis
    by (simp add: cut_len_def cut_rat_of_def cast_int32_def floor_eq_iff)
qed

text \<open>
  Claim C8. For \<^verbatim>\<open>IMG_SIZE = 32\<close> and a mixing ratio of \<open>0.5\<close> the cut ratio is
  \<open>sqrt 0.5\<close>, which lies between \<open>0.707\<close> and \<open>0.708\<close>; the truncated cut width and
  height are both \<open>22\<close>; and when the centre draw is \<open>(16, 16)\<close>, \<^verbatim>\<open>get_box\<close> returns
  \<open>x = 5\<close>, \<open>y = 5\<close>, \<open>height = 22\<close>, \<open>width = 22\<close>.
\<close>

theorem get_box_example_32_half:
  "IMG_SIZE = 32
   \<and> cut_rat_of (1 / 2) = sqrt (1 / 2)
   \<and> 707 / 1000 < cut_rat_of (1 / 2) \<and> cut_rat_of (1 / 2) < 708 / 1000
   \<and> cut_len IMG_SIZE (1 / 2) = 22
   \<and> get_box IMG_SIZE (1 / 2) 16 16 = (5, 5, 22, 22)"
proof -
  have "get_box 32 (1 / 2) 16 16 = (5, 5, 22, 22)"
    unfolding get_box_def Let_def clip_by_value_def cut_len_32_half by simp
  then show ?thesis
    using sqrt_half_bounds(1,2) cut_len_32_half by (simp add: IMG_SIZE_def cut_rat_of_def)
qed


section \<open>Properties of CutMix\<close>

subsection \<open>Shapes, cropping, padding and element-wise operators\<close>

lemma is_image_nth:
  assumes "is_image h w c img" and "i < h"
  shows "length (img ! i) = w" and "j < w \<Longrightarrow> length (img ! i ! j) = c"
proof -
  have "img ! i \<in> set img" using assms by (simp add: is_image_def)
  then have r: "length (img ! i) = w" "\<forall>px \<in> set (img ! i). length px = c"
    using assms(1) by (auto simp: is_image_def)
  show "length (img ! i) = w" by (rule r(1))
  show "length (img ! i ! j) = c" if "j < w"
    using r that by simp
qed

lemma is_imageI:
  assumes "length img = h"
    and "\<And>i. i < h \<Longrightarrow> length (img ! i) = w"
    and "\<And>i j. i < h \<Longrightarrow> j < w \<Longrightarrow> length (img ! i ! j) = c"
  shows "is_image h w c img"
  unfolding is_image_def using assms by (auto simp: in_set_conv_nth)

lemma is_image_dims:
  assumes "is_image h w c img" and "0 < h"
  shows "img_height img = h" and "img_width img = w" and "0 < w \<Longrightarrow> img_depth img = c"
proof -
  show "img_height img = h"
    using assms by (simp add: is_image_def img_height_def)
  obtain row rest where img: "img = row # rest"
    using assms by (cases img) (auto simp: is_image_def)
  then have row: "length row = w" "\<forall>px \<in> set row. length px = c"
    using assms(1) by (auto simp: is_image_def)
  show "img_width img = w"
    using img row by (simp add: img_width_def)
  show "img_depth img = c" if "0 < w"
    using img row that by (cases row) (auto simp: img_depth_def)
qed

lemma image_eqI:
  assumes "is_image h w c a" and "is_image h w c b"
    and "\<And>i j k. i < h \<Longrightarrow> j < w \<Longrightarrow> k < c \<Longrightarrow> a ! i ! j ! k = b ! i ! j ! k"
  shows "a = b"
proof (rule nth_equalityI)
  show "length a = length b"
    using assms(1,2) by (simp add: is_image_def)
  fix i assume "i < length a"
  then have i: "i < h" using assms(1) by (simp add: is_image_def)
  show "a ! i = b ! i"
  proof (rule nth_equalityI)
    show "length (a ! i) = length (b ! i)"
      using is_image_nth(1)[OF assms(1) i] is_image_nth(1)[OF assms(2) i] by simp
    fix j assume "j < length (a ! i)"
    then have j: "j < w" using is_image_nth(1)[OF assms(1) i] by simp
    show "a ! i ! j = b ! i ! j"
    proof (rule nth_equalityI)
      show "length (a ! i ! j) = length (b ! i ! j)"
        using is_image_nth(2)[OF assms(1) i j] is_image_nth(2)[OF assms(2) i j] by simp
      fix k assume "k < length (a ! i ! j)"
      then have "k < c" using is_image_nth(2)[OF assms(1) i j] by simp
      then show "a ! i ! j ! k = b ! i ! j ! k"
        using assms(3) i j by simp
    qed
  qed
qed

lemma crop_ok:
  assumes img: "is_image H W c img"
    and box: "0 \<le> oy" "0 \<le> ox" "0 < th" "0 < tw" "oy + th \<le> int H" "ox + tw \<le> int W"
  shows "\<exists>cr. crop_to_bounding_box img oy ox th tw = Inr cr
           \<and> is_image (nat th) (nat tw) c cr
           \<and> (\<forall>i < nat th. \<forall>j < nat tw. cr ! i ! j = img ! (nat oy + i) ! (nat ox + j))"
proof -
  have H: "0 < H" using box by linarith
  define cr where "cr = map (\<lambda>row. take (nat tw) (drop (nat ox) row))
                  (take (nat th) (drop (nat oy) img))"
  have dims: "img_height img = H" "img_width img = W"
    using is_image_dims[OF img H] by simp_all
  have eq: "crop_to_bounding_box img oy ox th tw = Inr cr"
    using box dims by (simp add: crop_to_bounding_box_def cr_def)
  have len: "length img = H" using img by (simp add: is_image_def)
  have len_cr: "length cr = nat th"
    using box len by (simp add: cr_def)
  have row: "cr ! i = take (nat tw) (drop (nat ox) (img ! (nat oy + i)))" if "i < nat th" for i
    using that box len by (simp add: cr_def)
  have rowlen: "length (img ! (nat oy + i)) = W" if "i < nat th" for i
    using is_image_nth(1)[OF img, of "nat oy + i"] that box by simp
  have px: "cr ! i ! j = img ! (nat oy + i) ! (nat ox + j)" if "i < nat th" "j < nat tw" for i j
    using that box rowlen[OF that(1)] by (simp add: row)
  have "is_image (nat th) (nat tw) c cr"
  proof (rule is_imageI)
    show "length cr = nat th" by (rule len_cr)
    show "length (cr ! i) = nat tw" if "i < nat th" for i
      using that box rowlen[OF that] by (simp add: row)
    show "length (cr ! i ! j) = c" if "i < nat th" "j < nat tw" for i j
      using is_image_nth(2)[OF img, of "nat oy + i" "nat ox + j"] that box
      by (simp add: px)
  qed
  then show ?thesis using eq px by blast
qed


lemma pad_ok:
  assumes cr: "is_image h w c cr" and pos: "0 < h" "0 < w"
    and box: "0 \<le> oy" "0 \<le> ox" "oy + int h \<le> TH" "ox + int w \<le> TW"
  shows "\<exists>p. pad_to_bounding_box cr oy ox TH TW = Inr p
           \<and> is_image (nat TH) (nat TW) c p
           \<and> (\<forall>i < nat TH. \<forall>j < nat TW.
                 p ! i ! j = (if nat oy \<le> i \<and> i < nat oy + h \<and> nat ox \<le> j \<and> j < nat ox + w
                              then cr ! (i - nat oy) ! (j - nat ox) else replicate c 0))"
proof -
  define z where "z = replicate c (0::real)"
  define aw where "aw = nat (TW - ox - int w)"
  define ah where "ah = nat (TH - oy - int h)"
  define p where "p = replicate (nat oy) (replicate (nat TW) z)
      @ map (\<lambda>row. replicate (nat ox) z @ row @ replicate aw z) cr
      @ replicate ah (replicate (nat TW) z)"
  have dims: "img_height cr = h" "img_width cr = w" "img_depth cr = c"
    using is_image_dims[OF cr pos(1)] pos(2) by simp_all
  have eq: "pad_to_bounding_box cr oy ox TH TW = Inr p"
    using box dims by (simp add: pad_to_bounding_box_def p_def z_def aw_def ah_def Let_def)
  have len: "length cr = h" using cr by (simp add: is_image_def)
  have TH: "nat TH = nat oy + h + ah" and TW: "nat TW = nat ox + w + aw"
    using box by (simp_all add: ah_def aw_def)
  have rowlen: "length (cr ! i) = w" if "i < h" for i
    using is_image_nth(1)[OF cr that] .
  have row: "p ! i = (if nat oy \<le> i \<and> i < nat oy + h
                      then replicate (nat ox) z @ cr ! (i - nat oy) @ replicate aw z
                      else replicate (nat TW) z)" if "i < nat TH" for i
    using that len unfolding p_def TH by (auto simp: nth_append)
  have px: "p ! i ! j = (if nat oy \<le> i \<and> i < nat oy + h \<and> nat ox \<le> j \<and> j < nat ox + w
                         then cr ! (i - nat oy) ! (j - nat ox) else z)"
    if "i < nat TH" "j < nat TW" for i j
  proof (cases "nat oy \<le> i \<and> i < nat oy + h")
    case True
    then have rl: "length (cr ! (i - nat oy)) = w"
      using rowlen[of "i - nat oy"] by auto
    have pi: "p ! i = replicate (nat ox) z @ cr ! (i - nat oy) @ replicate aw z"
      using True row[OF that(1)] by simp
    consider "j < nat ox" | "nat ox \<le> j" "j < nat ox + w" | "nat ox + w \<le> j"
      by linarith
    then show ?thesis
    proof cases
      case 1
      then show ?thesis using True by (simp add: pi nth_append)
    next
      case 2
      then have "j - nat ox < w" by linarith
      then show ?thesis using True 2 by (simp add: pi nth_append rl)
    next
      case 3
      then have "\<not> j - nat ox < w" "\<not> j < nat ox" "j - nat ox - w < aw"
        using that(2) TW by linarith+
      then show ?thesis using True 3 by (simp add: pi nth_append rl)
    qed
  next
    case False
    then show ?thesis
      using that unfolding row[OF that(1)] by auto
  qed
  have "is_image (nat TH) (nat TW) c p"
  proof (rule is_imageI)
    show "length p = nat TH"
      using len by (simp add: p_def TH)
    show "length (p ! i) = nat TW" if "i < nat TH" for i
      using rowlen[of "i - nat oy"] unfolding row[OF that] TW by auto
    show "length (p ! i ! j) = c" if "i < nat TH" "j < nat TW" for i j
      using is_image_nth(2)[OF cr, of "i - nat oy" "j - nat ox"]
      unfolding px[OF that] by (auto simp: z_def)
  qed
  then show ?thesis using eq px unfolding z_def by blast
qed

lemma binop_ok:
  assumes a: "is_image h w c a" and b: "is_image h w c b" and pos: "0 < h" "0 < w"
  shows "\<exists>r. image_binop f a b = Inr r \<and> is_image h w c r
           \<and> (\<forall>i < h. \<forall>j < w. \<forall>k < c. r ! i ! j ! k = f (a ! i ! j ! k) (b ! i ! j ! k))"
proof -
  define r where "r = map (\<lambda>i. map (\<lambda>j. map (\<lambda>k.
                 f (a ! bsel h i ! bsel w j ! bsel c k) (b ! bsel h i ! bsel w j ! bsel c k))
                 [0..<c]) [0..<w]) [0..<h]"
  have da: "img_height a = h" "img_width a = w" "img_depth a = c"
    using is_image_dims[OF a pos(1)] pos(2) by simp_all
  have db: "img_height b = h" "img_width b = w" "img_depth b = c"
    using is_image_dims[OF b pos(1)] pos(2) by simp_all
  have eq: "image_binop f a b = Inr r"
    by (simp add: image_binop_def da db broadcast_dim_def r_def)
  have sel: "bsel n i = i" if "i < n" for n i
    using that by (auto simp: bsel_def)
  have px: "r ! i ! j ! k = f (a ! i ! j ! k) (b ! i ! j ! k)" if "i < h" "j < w" "k < c" for i j k
    using that by (simp add: r_def sel)
  have "is_image h w c r"
    by (rule is_imageI) (simp_all add: r_def)
  then show ?thesis using eq px by blast
qed


lemma crop_pad_mask:
  assumes img: "is_image (nat S) (nat S) c img"
    and bnd: "0 \<le> x" "0 \<le> y" "1 \<le> w" "1 \<le> h" "x + w \<le> S" "y + h \<le> S"
  shows "\<exists>cr m. crop_to_bounding_box img y x h w = Inr cr
           \<and> pad_to_bounding_box cr y x S S = Inr m
           \<and> is_image (nat S) (nat S) c m
           \<and> (\<forall>i < nat S. \<forall>j < nat S. \<forall>k < c.
                 m ! i ! j ! k = (if in_box (x, y, h, w) i j then img ! i ! j ! k else 0))"
proof -
  obtain cr where cr: "crop_to_bounding_box img y x h w = Inr cr"
    "is_image (nat h) (nat w) c cr"
    "\<And>i j. i < nat h \<Longrightarrow> j < nat w \<Longrightarrow> cr ! i ! j = img ! (nat y + i) ! (nat x + j)"
    using crop_ok[OF img, of y x h w] bnd by auto
  obtain m where m: "pad_to_bounding_box cr y x S S = Inr m"
    "is_image (nat S) (nat S) c m"
    "\<And>i j. i < nat S \<Longrightarrow> j < nat S \<Longrightarrow>
       m ! i ! j = (if nat y \<le> i \<and> i < nat y + nat h \<and> nat x \<le> j \<and> j < nat x + nat w
                    then cr ! (i - nat y) ! (j - nat x) else replicate c 0)"
    using pad_ok[OF cr(2), of y x S S] bnd by auto
  have "m ! i ! j ! k = (if in_box (x, y, h, w) i j then img ! i ! j ! k else 0)"
    if "i < nat S" "j < nat S" "k < c" for i j k
  proof (cases "in_box (x, y, h, w) i j")
    case True
    then have rng: "nat y \<le> i" "i < nat y + nat h" "nat x \<le> j" "j < nat x + nat w"
      using bnd by (auto simp: in_box_def)
    then have "i - nat y < nat h" "j - nat x < nat w" by linarith+
    then have "cr ! (i - nat y) ! (j - nat x) = img ! i ! j"
      using cr(3)[of "i - nat y" "j - nat x"] rng by simp
    then show ?thesis
      using True rng m(3)[OF that(1,2)] by simp
  next
    case False
    then have "\<not> (nat y \<le> i \<and> i < nat y + nat h \<and> nat x \<le> j \<and> j < nat x + nat w)"
      using bnd by (auto simp: in_box_def)
    then have "m ! i ! j = replicate c 0"
      using m(3)[OF that(1,2)] by (simp only: if_False)
    then show ?thesis
      using False that(3) by simp
  qed
  then show ?thesis using cr(1) m(1,2) by blast
qed

lemma label_blend:
  assumes "length a = length b"
  shows "label_add (label_scale r a) (label_scale s b)
         = Inr (map (\<lambda>i. r * a ! i + s * b ! i) [0..<length a])"
proof -
  have "bsel (length b) i = i" if "i < length b" for i
    using that by (auto simp: bsel_def)
  then show ?thesis
    using assms by (simp add: label_add_def label_scale_def broadcast_dim_def)
qed


lemma sample_beta_range:
  assumes "0 \<le> g1" and "0 \<le> g2" and "0 < g1 + g2"
  shows "0 \<le> sample_beta_distribution g1 g2" and "sample_beta_distribution g1 g2 \<le> 1"
  using assms by (simp_all add: sample_beta_distribution_def)

lemma cutmix_core:
  assumes im1: "is_image (nat img_size) (nat img_size) c image1"
    and im2: "is_image (nat img_size) (nat img_size) c image2"
    and lab: "length label1 = length label2"
    and box: "get_box img_size (sample_beta_distribution g1 g2) cut_x cut_y = (x, y, h, w)"
    and bnd: "0 \<le> x" "0 \<le> y" "1 \<le> w" "1 \<le> h" "x + w \<le> img_size" "y + h \<le> img_size"
  shows "\<exists>image_t.
      cutmix img_size (image1, label1) (image2, label2) g1 g2 cut_x cut_y
        = Inr (image_t,
               map (\<lambda>i. (1 - real_of_int (w * h) / real_of_int (img_size * img_size)) * label1 ! i
                      + (1 - (1 - real_of_int (w * h) / real_of_int (img_size * img_size))) * label2 ! i)
                   [0..<length label1])
      \<and> is_image (nat img_size) (nat img_size) c image_t
      \<and> (\<forall>i < nat img_size. \<forall>j < nat img_size. \<forall>k < c.
            image_t ! i ! j ! k
              = (if in_box (x, y, h, w) i j then image2 ! i ! j ! k else image1 ! i ! j ! k))"
proof -
  have pos: "0 < nat img_size"
    using bnd by linarith
  obtain crop2 p2 where c2: "crop_to_bounding_box image2 y x h w = Inr crop2"
    and p2: "pad_to_bounding_box crop2 y x img_size img_size = Inr p2"
    and s2: "is_image (nat img_size) (nat img_size) c p2"
    and v2: "\<And>i j k. i < nat img_size \<Longrightarrow> j < nat img_size \<Longrightarrow> k < c \<Longrightarrow>
              p2 ! i ! j ! k = (if in_box (x, y, h, w) i j then image2 ! i ! j ! k else 0)"
    using crop_pad_mask[OF im2 bnd] by blast
  obtain crop1 p1 where c1: "crop_to_bounding_box image1 y x h w = Inr crop1"
    and p1: "pad_to_bounding_box crop1 y x img_size img_size = Inr p1"
    and s1: "is_image (nat img_size) (nat img_size) c p1"
    and v1: "\<And>i j k. i < nat img_size \<Longrightarrow> j < nat img_size \<Longrightarrow> k < c \<Longrightarrow>
              p1 ! i ! j ! k = (if in_box (x, y, h, w) i j then image1 ! i ! j ! k else 0)"
    using crop_pad_mask[OF im1 bnd] by blast
  obtain d where d: "image_binop (-) image1 p1 = Inr d"
    and sd: "is_image (nat img_size) (nat img_size) c d"
    and vd: "\<And>i j k. i < nat img_size \<Longrightarrow> j < nat img_size \<Longrightarrow> k < c \<Longrightarrow>
              d ! i ! j ! k = image1 ! i ! j ! k - p1 ! i ! j ! k"
    using binop_ok[OF im1 s1 pos pos, of "(-)"] by blast
  obtain r where r: "image_binop (+) d p2 = Inr r"
    and sr: "is_image (nat img_size) (nat img_size) c r"
    and vr: "\<And>i j k. i < nat img_size \<Longrightarrow> j < nat img_size \<Longrightarrow> k < c \<Longrightarrow>
              r ! i ! j ! k = d ! i ! j ! k + p2 ! i ! j ! k"
    using binop_ok[OF sd s2 pos pos, of "(+)"] by blast
  have "cutmix img_size (image1, label1) (image2, label2) g1 g2 cut_x cut_y
        = Inr (r, map (\<lambda>i. (1 - real_of_int (w * h) / real_of_int (img_size * img_size)) * label1 ! i
                      + (1 - (1 - real_of_int (w * h) / real_of_int (img_size * img_size))) * label2 ! i)
                   [0..<length label1])"
    unfolding cutmix_def Let_def prod.case box
    by (simp only: c2 p2 c1 p1 d r then_do_def sum.case label_blend[OF lab])
  moreover have "r ! i ! j ! k = (if in_box (x, y, h, w) i j then image2 ! i ! j ! k else image1 ! i ! j ! k)"
    if "i < nat img_size" "j < nat img_size" "k < c" for i j k
    using vr[OF that] vd[OF that] v1[OF that] v2[OF that] by simp
  ultimately show ?thesis
    using sr by blast
qed

subsection \<open>The combined sample\<close>

lemma blend_labels_index:
  assumes "length label1 = length label2"
  shows "map (\<lambda>i. r * label1 ! i + (1 - r) * label2 ! i) [0..<length label1]
         = blend_labels r label1 label2"
  using assms by (auto simp: blend_labels_def intro: nth_equalityI)

lemma sum_list_blend:
  assumes "length label1 = length label2"
  shows "sum_list (blend_labels r label1 label2) = r * sum_list label1 + (1 - r) * sum_list label2"
  using assms unfolding blend_labels_def
proof (induction label1 label2 rule: list_induct2)
  case Nil
  then show ?case by simp
next
  case (Cons a as b bs)
  then show ?case by (simp add: algebra_simps)
qed

lemma in_box_full:
  assumes "i < nat S" and "j < nat S"
  shows "in_box (0, 0, S, S) i j"
proof -
  have "int i < S" "int j < S" using assms by linarith+
  then show ?thesis by (simp add: in_box_def)
qed

lemma cut_len_2_three_quarters: "cut_len 2 (3 / 4) = 1"
proof -
  have sq: "sqrt (1 / 4) = 1 / 2"
    by (rule real_sqrt_unique) (simp_all add: power2_eq_square)
  have e: "1 - 3 / 4 = (1 / 4 :: real)"
    by simp
  show ?thesis
    unfolding cut_len_def cut_rat_of_def cast_int32_def e sq by simp
qed

lemma get_box_2_example: "get_box 2 (sample_beta_distribution 3 1) 1 0 = (1, 0, 1, 1)"
proof -
  have "sample_beta_distribution 3 1 = 3 / 4"
    by (simp add: sample_beta_distribution_def)
  then show ?thesis
    unfolding get_box_def Let_def clip_by_value_def
    by (simp only: cut_len_2_three_quarters) simp
qed

lemma get_box_2_full: "get_box 2 (sample_beta_distribution 0 1) 1 1 = (0, 0, 2, 2)"
proof -
  have "cut_len 2 (sample_beta_distribution 0 1) = 2"
    by (simp add: sample_beta_distribution_def cut_len_def cut_rat_of_def cast_int32_def)
  then show ?thesis
    unfolding get_box_def Let_def clip_by_value_def by simp
qed

text \<open>
  Claim C5. For two input images of the shape \<open>img_size \<times> img_size \<times> c\<close> and every box
  that \<^verbatim>\<open>get_box\<close> can sample, \<^verbatim>\<open>cutmix\<close> returns an image of the same shape that equals
  \<open>image2\<close> at every pixel inside the box and \<open>image1\<close> at every pixel outside it: the
  patch is pasted, no pixel is blended.
\<close>

theorem cutmix_image_crop_and_paste:
  assumes "0 < img_size"
    and "is_image (nat img_size) (nat img_size) c image1"
    and "is_image (nat img_size) (nat img_size) c image2"
    and "length label1 = length label2"
    and "0 \<le> gamma_1_sample" and "0 \<le> gamma_2_sample"
    and "0 < gamma_1_sample + gamma_2_sample"
    and "0 \<le> cut_x" and "cut_x < img_size"
    and "0 \<le> cut_y" and "cut_y < img_size"
  shows "\<exists>image_t label.
      cutmix img_size (image1, label1) (image2, label2)
        gamma_1_sample gamma_2_sample cut_x cut_y = Inr (image_t, label)
      \<and> is_image (nat img_size) (nat img_size) c image_t
      \<and> (\<forall>i < nat img_size. \<forall>j < nat img_size. \<forall>k < c.
            image_t ! i ! j ! k
              = (if in_box (get_box img_size
                     (sample_beta_distribution gamma_1_sample gamma_2_sample) cut_x cut_y) i j
                 then image2 ! i ! j ! k else image1 ! i ! j ! k))"
proof -
  obtain x y h w where box:
    "get_box img_size (sample_beta_distribution gamma_1_sample gamma_2_sample) cut_x cut_y
       = (x, y, h, w)"
    by (metis prod_cases4)
  have bnd: "0 \<le> x" "0 \<le> y" "1 \<le> w" "1 \<le> h" "x + w \<le> img_size" "y + h \<le> img_size"
    using get_box_bounds[OF sample_beta_range[OF assms(5-7)] assms(1) assms(8-11) box]
    by simp_all
  show ?thesis
    using cutmix_core[OF assms(2-4) box bnd] unfolding box by blast
qed

theorem cutmix_image_crop_and_paste_witness:
  "(0::int) < 2
   \<and> is_image (nat 2) (nat 2) 1 [[[1], [2]], [[3], [4]]]
   \<and> is_image (nat 2) (nat 2) 1 [[[5], [6]], [[7], [8]]]
   \<and> length [1, 0::real] = length [0, 1::real]
   \<and> (0::real) \<le> 3 \<and> (0::real) \<le> 1 \<and> (0::real) < 3 + 1
   \<and> (0::int) \<le> 1 \<and> (1::int) < 2 \<and> (0::int) \<le> 0 \<and> (0::int) < 2
   \<and> get_box 2 (sample_beta_distribution 3 1) 1 0 = (1, 0, 1, 1)
   \<and> (\<exists>image_t label.
        cutmix 2 ([[[1], [2]], [[3], [4]]], [1, 0]) ([[[5], [6]], [[7], [8]]], [0, 1]) 3 1 1 0
          = Inr (image_t, label)
        \<and> is_image (nat 2) (nat 2) 1 image_t
        \<and> (\<forall>i < nat 2. \<forall>j < nat 2. \<forall>k < 1.
              image_t ! i ! j ! k
                = (if in_box (1, 0, 1, 1) i j
                   then [[[5], [6]], [[7], [8]]] ! i ! j ! k
                   else [[[1], [2]], [[3], [4]]] ! i ! j ! k)))"
proof -
  have im: "is_image (nat 2) (nat 2) 1 [[[1], [2]], [[3], [4]]]"
    "is_image (nat 2) (nat 2) 1 [[[5], [6]], [[7], [8]]]"
    by (simp_all add: is_image_def)
  show ?thesis
    using cutmix_image_crop_and_paste[OF _ im, of "[1, 0]" "[0, 1]" 3 1 1 0] im
    unfolding get_box_2_example by simp
qed

text \<open>
  Claim C3. \<^verbatim>\<open>cutmix\<close> recomputes the mixing ratio from the box that \<^verbatim>\<open>get_box\<close>
  returned, as one minus the area of the box over the area of the image, blends the labels
  as \<open>ratio * label1 + (1 - ratio) * label2\<close>, and when both input labels sum to 1 the
  output label sums to 1.
\<close>

theorem cutmix_label_sums_to_one:
  assumes "0 < img_size"
    and "is_image (nat img_size) (nat img_size) c image1"
    and "is_image (nat img_size) (nat img_size) c image2"
    and "length label1 = length label2"
    and "0 \<le> gamma_1_sample" and "0 \<le> gamma_2_sample"
    and "0 < gamma_1_sample + gamma_2_sample"
    and "0 \<le> cut_x" and "cut_x < img_size"
    and "0 \<le> cut_y" and "cut_y < img_size"
    and "sum_list label1 = 1" and "sum_list label2 = 1"
  shows "\<exists>image_t label.
      cutmix img_size (image1, label1) (image2, label2)
        gamma_1_sample gamma_2_sample cut_x cut_y = Inr (image_t, label)
      \<and> label = blend_labels
            (effective_ratio img_size (get_box img_size
               (sample_beta_distribution gamma_1_sample gamma_2_sample) cut_x cut_y))
            label1 label2
      \<and> sum_list label = 1"
proof -
  obtain x y h w where box:
    "get_box img_size (sample_beta_distribution gamma_1_sample gamma_2_sample) cut_x cut_y
       = (x, y, h, w)"
    by (metis prod_cases4)
  have bnd: "0 \<le> x" "0 \<le> y" "1 \<le> w" "1 \<le> h" "x + w \<le> img_size" "y + h \<le> img_size"
    using get_box_bounds[OF sample_beta_range[OF assms(5-7)] assms(1) assms(8-11) box]
    by simp_all
  define r where "r = effective_ratio img_size (x, y, h, w)"
  have r: "1 - real_of_int (w * h) / real_of_int (img_size * img_size) = r"
    by (simp add: r_def effective_ratio_def mult.commute)
  obtain image_t where
    "cutmix img_size (image1, label1) (image2, label2) gamma_1_sample gamma_2_sample cut_x cut_y
       = Inr (image_t, blend_labels r label1 label2)"
    using cutmix_core[OF assms(2-4) box bnd] unfolding r blend_labels_index[OF assms(4)]
    by blast
  moreover have "sum_list (blend_labels r label1 label2) = 1"
    using sum_list_blend[OF assms(4), of r] assms(12,13) by simp
  ultimately show ?thesis
    unfolding box r_def by blast
qed

theorem cutmix_label_sums_to_one_witness:
  "(0::int) < 2
   \<and> is_image (nat 2) (nat 2) 1 [[[1], [2]], [[3], [4]]]
   \<and> is_image (nat 2) (nat 2) 1 [[[5], [6]], [[7], [8]]]
   \<and> length [1, 0::real] = length [0, 1::real]
   \<and> (0::real) \<le> 3 \<and> (0::real) \<le> 1 \<and> (0::real) < 3 + 1
   \<and> (0::int) \<le> 1 \<and> (1::int) < 2 \<and> (0::int) \<le> 0 \<and> (0::int) < 2
   \<and> sum_list [1, 0::real] = 1 \<and> sum_list [0, 1::real] = 1
   \<and> get_box 2 (sample_beta_distribution 3 1) 1 0 = (1, 0, 1, 1)
   \<and> effective_ratio 2 (1, 0, 1, 1) = 3 / 4
   \<and> blend_labels (3 / 4) [1, 0] [0, 1] = [3 / 4, 1 / 4]
   \<and> (\<exists>image_t label.
        cutmix 2 ([[[1], [2]], [[3], [4]]], [1, 0]) ([[[5], [6]], [[7], [8]]], [0, 1]) 3 1 1 0
          = Inr (image_t, label)
        \<and> label = [3 / 4, 1 / 4] \<and> sum_list label = 1)"
proof -
  have im: "is_image (nat 2) (nat 2) 1 [[[1], [2]], [[3], [4]]]"
    "is_image (nat 2) (nat 2) 1 [[[5], [6]], [[7], [8]]]"
    by (simp_all add: is_image_def)
  have r: "effective_ratio 2 (1, 0, 1, 1) = 3 / 4"
    by (simp add: effective_ratio_def)
  have b: "blend_labels (3 / 4) [1, 0] [0, 1] = [3 / 4, 1 / 4]"
    by (simp add: blend_labels_def)
  show ?thesis
    using cutmix_label_sums_to_one[OF _ im, of "[1, 0]" "[0, 1]" 3 1 1 0] im
    unfolding get_box_2_example r b by simp
qed

text \<open>
  Claim C7. If the sampled box covers the whole image (\<open>x = y = 0\<close> and
  \<open>width = height = img_size\<close>), \<^verbatim>\<open>cutmix\<close> returns exactly \<open>image2\<close> and \<open>label2\<close>; the
  effective mixing ratio is 0.
\<close>

theorem cutmix_full_box:
  assumes "0 < img_size"
    and "is_image (nat img_size) (nat img_size) c image1"
    and "is_image (nat img_size) (nat img_size) c image2"
    and "length label1 = length label2"
    and "get_box img_size (sample_beta_distribution gamma_1_sample gamma_2_sample) cut_x cut_y
           = (0, 0, img_size, img_size)"
  shows "cutmix img_size (image1, label1) (image2, label2)
           gamma_1_sample gamma_2_sample cut_x cut_y = Inr (image2, label2)
         \<and> effective_ratio img_size (0, 0, img_size, img_size) = 0"
proof -
  have bnd: "(0::int) \<le> 0" "(0::int) \<le> 0" "1 \<le> img_size" "1 \<le> img_size"
    "0 + img_size \<le> img_size" "0 + img_size \<le> img_size"
    using assms(1) by simp_all
  have r0: "1 - real_of_int (img_size * img_size) / real_of_int (img_size * img_size) = 0"
    using assms(1) by simp
  obtain image_t where res:
    "cutmix img_size (image1, label1) (image2, label2) gamma_1_sample gamma_2_sample cut_x cut_y
       = Inr (image_t, map (\<lambda>i. 0 * label1 ! i + (1 - 0) * label2 ! i) [0..<length label1])"
    and shape: "is_image (nat img_size) (nat img_size) c image_t"
    and px: "\<And>i j k. i < nat img_size \<Longrightarrow> j < nat img_size \<Longrightarrow> k < c \<Longrightarrow>
      image_t ! i ! j ! k
        = (if in_box (0, 0, img_size, img_size) i j then image2 ! i ! j ! k else image1 ! i ! j ! k)"
    using cutmix_core[OF assms(2-5) bnd] unfolding r0 by blast
  have "image_t = image2"
    using shape assms(3)
  proof (rule image_eqI)
    fix i j k assume "i < nat img_size" "j < nat img_size" "k < c"
    then show "image_t ! i ! j ! k = image2 ! i ! j ! k"
      using px[of i j k] in_box_full[of i img_size j] by simp
  qed
  moreover have "map (\<lambda>i. 0 * label1 ! i + (1 - 0) * label2 ! i) [0..<length label1] = label2"
    using assms(4) by (simp add: map_nth)
  moreover have "effective_ratio img_size (0, 0, img_size, img_size) = 0"
    using assms(1) by (simp add: effective_ratio_def)
  ultimately show ?thesis
    using res by simp
qed

theorem cutmix_full_box_witness:
  "(0::int) < 2
   \<and> is_image (nat 2) (nat 2) 1 [[[1], [2]], [[3], [4]]]
   \<and> is_image (nat 2) (nat 2) 1 [[[5], [6]], [[7], [8]]]
   \<and> length [1, 0::real] = length [0, 1::real]
   \<and> get_box 2 (sample_beta_distribution 0 1) 1 1 = (0, 0, 2, 2)
   \<and> cutmix 2 ([[[1], [2]], [[3], [4]]], [1, 0]) ([[[5], [6]], [[7], [8]]], [0, 1]) 0 1 1 1
       = Inr ([[[5], [6]], [[7], [8]]], [0, 1])
   \<and> effective_ratio 2 (0, 0, 2, 2) = 0"
proof -
  have im: "is_image (nat 2) (nat 2) 1 [[[1], [2]], [[3], [4]]]"
    "is_image (nat 2) (nat 2) 1 [[[5], [6]], [[7], [8]]]"
    by (simp_all add: is_image_def)
  show ?thesis
    using cutmix_full_box[OF _ im _ get_box_2_full, of "[1, 0]" "[0, 1]"] im get_box_2_full
    by simp
qed

section \<open>Properties of WGAN-GP\<close>

subsection \<open>The gradient penalty\<close>

lemma interpolate_state:
  assumes "interpolate m batch_size real_images fake_images s = Inr (interpolated, s')"
  shows "s' = s\<lparr>rng_pos := rng_pos s + batch_size\<rparr>"
  using assms
  by (auto simp: interpolate_def random_normal_def then_do_def Let_def split: sum.splits)

lemma gradient_penalty_state:
  assumes "gradient_penalty m batch_size real_images fake_images s = Inr (gp, s')"
  shows "s' = s\<lparr>rng_pos := rng_pos s + batch_size\<rparr>"
  using assms interpolate_state[of m batch_size real_images fake_images s]
  by (auto simp: gradient_penalty_def then_do_def Let_def split: sum.splits)

lemma flatten_sum_square: "reduce_sum_square g = (\<Sum>x\<leftarrow>flatten g. x\<^sup>2)"
proof -
  have px: "sum_list (map (\<lambda>v. v * v) px) = (\<Sum>x\<leftarrow>px. x\<^sup>2)" for px :: "real list"
    by (simp add: power2_eq_square)
  have row: "sum_list (map (\<lambda>px. sum_list (map (\<lambda>v. v * v) px)) row) = (\<Sum>x\<leftarrow>concat row. x\<^sup>2)"
    for row :: "real list list"
    by (induction row) (simp_all add: px)
  show ?thesis
    unfolding reduce_sum_square_def flatten_def
    by (induction g) (simp_all add: row)
qed

lemma mean_squares_zero:
  fixes xs :: "real list"
  assumes "xs \<noteq> []"
  shows "mean (map (\<lambda>n. (n - 1)\<^sup>2) xs) = 0 \<longleftrightarrow> (\<forall>n \<in> set xs. n = 1)"
proof -
  have nonneg: "\<forall>y \<in> set (map (\<lambda>n. (n - 1)\<^sup>2) xs). 0 \<le> y"
    by auto
  have "sum_list (map (\<lambda>n. (n - 1)\<^sup>2) xs) = 0 \<longleftrightarrow> (\<forall>y \<in> set (map (\<lambda>n. (n - 1)\<^sup>2) xs). y = 0)"
    by (rule sum_list_nonneg_eq_0_iff) (use nonneg in blast)
  then show ?thesis
    using assms by (auto simp: mean_def)
qed


lemma is_batch_dims:
  assumes "is_batch n h w c xs" and "0 < n" and "0 < h" and "0 < w"
  shows "length xs = n" and "batch_height xs = h" and "batch_width xs = w"
    and "batch_depth xs = c"
proof -
  show n: "length xs = n"
    using assms(1) by (simp add: is_batch_def)
  then obtain img rest where xs: "xs = img # rest"
    using assms(2) by (cases xs) auto
  then have "is_image h w c img"
    using assms(1) by (simp add: is_batch_def)
  from is_image_dims[OF this assms(3)] assms(4)
  show "batch_height xs = h" "batch_width xs = w" "batch_depth xs = c"
    by (simp_all add: xs batch_height_def batch_width_def batch_depth_def)
qed

lemma is_batch_tabulate:
  "is_batch n h w c
     (map (\<lambda>e. map (\<lambda>i. map (\<lambda>j. map (\<lambda>k. F e i j k) [0..<c]) [0..<w]) [0..<h]) [0..<n])"
  by (auto simp: is_batch_def is_image_def)

lemma tabulate_cong:
  assumes "\<And>e i j k. e < n \<Longrightarrow> i < h \<Longrightarrow> j < w \<Longrightarrow> k < c \<Longrightarrow> F e i j k = G e i j k"
  shows "map (\<lambda>e. map (\<lambda>i. map (\<lambda>j. map (\<lambda>k. F e i j k) [0..<c]) [0..<w]) [0..<h]) [0..<n]
       = map (\<lambda>e. map (\<lambda>i. map (\<lambda>j. map (\<lambda>k. G e i j k) [0..<c]) [0..<w]) [0..<h]) [0..<n]"
  using assms by simp

lemma bsel_id:
  assumes "i < d"
  shows "bsel d i = i"
  using assms by (auto simp: bsel_def)

lemma batch_binop_same:
  assumes a: "is_batch n h w c a" and b: "is_batch n h w c b"
    and pos: "0 < n" "0 < h" "0 < w"
  shows "batch_binop f a b
         = Inr (map (\<lambda>e. map (\<lambda>i. map (\<lambda>j. map (\<lambda>k. f (a ! e ! i ! j ! k) (b ! e ! i ! j ! k))
                  [0..<c]) [0..<w]) [0..<h]) [0..<n])"
proof -
  note da = is_batch_dims[OF a pos]
  note db = is_batch_dims[OF b pos]
  show ?thesis
    unfolding batch_binop_def da db
    by (simp add: broadcast_dim_def bsel_id)
qed

lemma batch_binop_alpha:
  assumes zs: "length zs = n" and b: "is_batch n h w c b"
    and pos: "0 < n" "0 < h" "0 < w"
  shows "batch_binop f (map (\<lambda>a. [[[a]]]) zs) b
         = Inr (map (\<lambda>e. map (\<lambda>i. map (\<lambda>j. map (\<lambda>k. f (zs ! e) (b ! e ! i ! j ! k))
                  [0..<c]) [0..<w]) [0..<h]) [0..<n])"
proof -
  note db = is_batch_dims[OF b pos]
  obtain z rest where z: "zs = z # rest"
    using zs pos(1) by (cases zs) auto
  have da: "length (map (\<lambda>a. [[[a]]]) zs) = n" "batch_height (map (\<lambda>a. [[[a]]]) zs) = 1"
    "batch_width (map (\<lambda>a. [[[a]]]) zs) = 1" "batch_depth (map (\<lambda>a. [[[a]]]) zs) = 1"
    using zs by (simp_all add: z batch_height_def batch_width_def batch_depth_def
        img_height_def img_width_def img_depth_def)
  have bd: "broadcast_dim 1 d = Some d" for d
    by (simp add: broadcast_dim_def)
  have one: "bsel (Suc 0) i = 0" for i
    by (simp add: bsel_def)
  show ?thesis
    unfolding batch_binop_def da db bd
    using zs by (simp add: broadcast_dim_def bsel_id one)
qed


lemma interpolate_ok:
  assumes r: "is_batch n h w c real_images" and f: "is_batch n h w c fake_images"
    and pos: "0 < n" "0 < h" "0 < w"
  shows "interpolate m n real_images fake_images s
         = Inr (interpolation (map (normal_draws m) [rng_pos s ..< rng_pos s + n])
                  real_images fake_images,
                s\<lparr>rng_pos := rng_pos s + n\<rparr>)"
proof -
  define zs where "zs = map (normal_draws m) [rng_pos s ..< rng_pos s + n]"
  define diff where "diff = map (\<lambda>e. map (\<lambda>i. map (\<lambda>j. map (\<lambda>k.
      fake_images ! e ! i ! j ! k - real_images ! e ! i ! j ! k)
      [0..<c]) [0..<w]) [0..<h]) [0..<n]"
  define ad where "ad = map (\<lambda>e. map (\<lambda>i. map (\<lambda>j. map (\<lambda>k. zs ! e * diff ! e ! i ! j ! k)
      [0..<c]) [0..<w]) [0..<h]) [0..<n]"
  have rn: "random_normal m n 0 1 s = (zs, s\<lparr>rng_pos := rng_pos s + n\<rparr>)"
    by (simp add: random_normal_def zs_def)
  have len: "length zs = n"
    by (simp add: zs_def)
  have d: "batch_binop (-) fake_images real_images = Inr diff"
    unfolding diff_def by (rule batch_binop_same[OF f r pos])
  have bd: "is_batch n h w c diff"
    unfolding diff_def by (rule is_batch_tabulate)
  have a: "batch_binop (*) (map (\<lambda>a. [[[a]]]) zs) diff = Inr ad"
    unfolding ad_def by (rule batch_binop_alpha[OF len bd pos])
  have ba: "is_batch n h w c ad"
    unfolding ad_def by (rule is_batch_tabulate)
  have "batch_binop (+) real_images ad
        = Inr (map (\<lambda>e. map (\<lambda>i. map (\<lambda>j. map (\<lambda>k.
            real_images ! e ! i ! j ! k + ad ! e ! i ! j ! k)
            [0..<c]) [0..<w]) [0..<h]) [0..<n])"
    by (rule batch_binop_same[OF r ba pos])
  also have "map (\<lambda>e. map (\<lambda>i. map (\<lambda>j. map (\<lambda>k.
            real_images ! e ! i ! j ! k + ad ! e ! i ! j ! k)
            [0..<c]) [0..<w]) [0..<h]) [0..<n]
      = interpolation zs real_images fake_images"
    unfolding interpolation_def is_batch_dims[OF r pos]
    by (rule tabulate_cong) (simp add: ad_def diff_def)
  finally have i: "batch_binop (+) real_images ad
      = Inr (interpolation zs real_images fake_images)" .
  show ?thesis
    unfolding interpolate_def rn prod.case Let_def zs_def[symmetric]
    by (simp only: d a i then_do_def sum.case)
qed

lemma interpolation_nth:
  assumes r: "is_batch n h w c real_images" and pos: "0 < n" "0 < h" "0 < w"
    and idx: "e < n" "i < h" "j < w" "k < c"
  shows "interpolation alpha real_images fake_images ! e ! i ! j ! k
         = real_images ! e ! i ! j ! k
           + alpha ! e * (fake_images ! e ! i ! j ! k - real_images ! e ! i ! j ! k)"
  unfolding interpolation_def is_batch_dims[OF r pos]
  using idx by simp

lemma is_batch_interpolation:
  assumes r: "is_batch n h w c real_images" and pos: "0 < n" "0 < h" "0 < w"
  shows "is_batch n h w c (interpolation alpha real_images fake_images)"
  unfolding interpolation_def is_batch_dims[OF r pos] by (rule is_batch_tabulate)

lemma gradient_penalty_eq:
  assumes "interpolate m batch_size real_images fake_images s = Inr (interpolated, s')"
    and "input_gradient m (discriminator m (d_vars s)) interpolated \<noteq> []"
  shows "gradient_penalty m batch_size real_images fake_images s
         = Inr (penalty (input_gradient m (discriminator m (d_vars s)) interpolated), s')"
proof -
  define grads where "grads = input_gradient m (discriminator m (d_vars s)) interpolated"
  have vars: "d_vars s' = d_vars s"
    using interpolate_state[OF assms(1)] by simp
  have sq: "(\<lambda>g. sqrt (reduce_sum_square g)) = (\<lambda>g. l2_norm (flatten g))"
    by (simp add: flatten_sum_square l2_norm_def)
  have "reduce_mean (map (\<lambda>n. (n - 1)\<^sup>2) (map (\<lambda>g. sqrt (reduce_sum_square g)) grads))
        = Inr (penalty grads)"
    using assms(2) unfolding sq grads_def[symmetric]
    by (simp add: reduce_mean_def penalty_def mean_def comp_def)
  then show ?thesis
    unfolding gradient_penalty_def assms(1) then_do_def sum.case prod.case Let_def vars
      grads_def[symmetric]
    by simp
qed

lemma penalty_zero_iff:
  assumes "grads \<noteq> []"
  shows "penalty grads = 0 \<longleftrightarrow> (\<forall>g \<in> set grads. l2_norm (flatten g) = 1)"
proof -
  have "penalty grads = mean (map (\<lambda>n. (n - 1)\<^sup>2) (map (\<lambda>g. l2_norm (flatten g)) grads))"
    by (simp add: penalty_def comp_def)
  then show ?thesis
    using mean_squares_zero[of "map (\<lambda>g. l2_norm (flatten g)) grads"] assms by simp
qed

lemma example_batches:
  "is_batch 2 1 1 1 example_images" "is_batch 2 1 1 1 [[[[3]]], [[[8]]]]"
  by (simp_all add: is_batch_def is_image_def example_images_def)

lemma example_interpolation:
  "interpolation (map (normal_draws example_wgan) [rng_pos example_state ..< rng_pos example_state + 2])
     example_images [[[[3]]], [[[8]]]] = [[[[3 / 2]]], [[[6]]]]"
  by (simp add: interpolation_def example_images_def example_wgan_def example_state_def
      batch_height_def batch_width_def batch_depth_def img_height_def img_width_def img_depth_def
      upt_rec)

lemma example_interpolate:
  "interpolate example_wgan 2 example_images [[[[3]]], [[[8]]]] example_state
   = Inr ([[[[3 / 2]]], [[[6]]]], example_state\<lparr>rng_pos := 2\<rparr>)"
  using interpolate_ok[OF example_batches, of example_wgan example_state]
  unfolding example_interpolation by (simp add: example_state_def)

lemma example_gradient:
  "input_gradient example_wgan (discriminator example_wgan (d_vars example_state))
     [[[[3 / 2]]], [[[6]]]] = [[[[1]]], [[[1]]]]"
  by (simp add: example_wgan_def example_state_def flatten_def)

text \<open>
  Claim C2. \<^verbatim>\<open>gradient_penalty\<close> returns the mean over the batch of \<open>(norm - 1)\<^sup>2\<close>, where
  \<open>norm\<close> is the L2 norm of the gradient of the discriminator at one interpolated image,
  flattened over its three axes; the result is 0 exactly when every such norm is 1.
  The batch is not empty.
\<close>

theorem gradient_penalty_mean_squared_deviation:
  assumes "interpolate m batch_size real_images fake_images s = Inr (interpolated, s')"
    and "grads = input_gradient m (discriminator m (d_vars s)) interpolated"
    and "grads \<noteq> []"
  shows "gradient_penalty m batch_size real_images fake_images s = Inr (penalty grads, s')
         \<and> (penalty grads = 0 \<longleftrightarrow> (\<forall>g \<in> set grads. l2_norm (flatten g) = 1))"
  using gradient_penalty_eq[OF assms(1)] penalty_zero_iff[OF assms(3)] assms(2,3) by simp

theorem gradient_penalty_mean_squared_deviation_witness:
  "interpolate example_wgan 2 example_images [[[[3]]], [[[8]]]] example_state
     = Inr ([[[[3 / 2]]], [[[6]]]], example_state\<lparr>rng_pos := 2\<rparr>)
   \<and> [[[[1]]], [[[1]]]]
     = input_gradient example_wgan (discriminator example_wgan (d_vars example_state))
         [[[[3 / 2]]], [[[6]]]]
   \<and> [[[[1::real]]], [[[1]]]] \<noteq> []
   \<and> gradient_penalty example_wgan 2 example_images [[[[3]]], [[[8]]]] example_state
     = Inr (penalty [[[[1]]], [[[1]]]], example_state\<lparr>rng_pos := 2\<rparr>)
   \<and> penalty [[[[1]]], [[[1]]]] = 0
   \<and> l2_norm (flatten [[[1]]]) = 1"
proof -
  have norm: "\<forall>g \<in> set [[[[1::real]]], [[[1]]]]. l2_norm (flatten g) = 1"
    by (simp add: l2_norm_def flatten_def)
  show ?thesis
    using gradient_penalty_mean_squared_deviation[OF example_interpolate example_gradient[symmetric]]
      example_interpolate example_gradient norm
    by simp
qed

text \<open>
  Claim C6. \<^verbatim>\<open>gradient_penalty\<close> draws one coefficient per element of the batch from the
  standard normal source (a tensor of shape \<open>[n, 1, 1, 1]\<close>, neither scaled nor shifted),
  forms the interpolated batch \<open>real + \<alpha> * (fake - real)\<close>, and differentiates the
  discriminator at that batch.
\<close>

theorem gradient_penalty_interpolation:
  assumes "is_batch n h w c real_images" and "is_batch n h w c fake_images"
    and "0 < n" and "0 < h" and "0 < w"
    and "alpha = map (normal_draws m) [rng_pos s ..< rng_pos s + n]"
    and "interpolated = interpolation alpha real_images fake_images"
    and "grads = input_gradient m (discriminator m (d_vars s)) interpolated"
  shows "interpolate m n real_images fake_images s
           = Inr (interpolated, s\<lparr>rng_pos := rng_pos s + n\<rparr>)
         \<and> length alpha = n
         \<and> (\<forall>e < n. alpha ! e = normal_draws m (rng_pos s + e))
         \<and> is_batch n h w c interpolated
         \<and> (\<forall>e < n. \<forall>i < h. \<forall>j < w. \<forall>k < c.
               interpolated ! e ! i ! j ! k
                 = real_images ! e ! i ! j ! k
                   + alpha ! e * (fake_images ! e ! i ! j ! k - real_images ! e ! i ! j ! k))
         \<and> gradient_penalty m n real_images fake_images s
           = (if grads = [] then Inl Not_A_Number
              else Inr (penalty grads, s\<lparr>rng_pos := rng_pos s + n\<rparr>))"
proof -
  have i: "interpolate m n real_images fake_images s
           = Inr (interpolated, s\<lparr>rng_pos := rng_pos s + n\<rparr>)"
    unfolding assms(7) assms(6) by (rule interpolate_ok[OF assms(1,2,3,4,5)])
  have "gradient_penalty m n real_images fake_images s = Inl Not_A_Number" if "grads = []"
    using that unfolding gradient_penalty_def i
    by (simp add: then_do_def reduce_mean_def assms(8))
  moreover have "gradient_penalty m n real_images fake_images s
      = Inr (penalty grads, s\<lparr>rng_pos := rng_pos s + n\<rparr>)" if "grads \<noteq> []"
    using gradient_penalty_eq[OF i] that unfolding assms(8) by simp
  moreover have "\<forall>e < n. \<forall>i < h. \<forall>j < w. \<forall>k < c.
               interpolated ! e ! i ! j ! k
                 = real_images ! e ! i ! j ! k
                   + alpha ! e * (fake_images ! e ! i ! j ! k - real_images ! e ! i ! j ! k)"
    unfolding assms(7) using interpolation_nth[OF assms(1,3,4,5)] by blast
  moreover have "is_batch n h w c interpolated"
    unfolding assms(7) by (rule is_batch_interpolation[OF assms(1,3,4,5)])
  moreover have "length alpha = n" "\<forall>e < n. alpha ! e = normal_draws m (rng_pos s + e)"
    by (simp_all add: assms(6))
  ultimately show ?thesis
    using i by simp
qed

theorem gradient_penalty_interpolation_witness:
  "is_batch 2 1 1 1 example_images \<and> is_batch 2 1 1 1 [[[[3]]], [[[8]]]]
   \<and> (0::nat) < 2 \<and> (0::nat) < 1
   \<and> [- 1 / 2, 1 / 2]
       = map (normal_draws example_wgan) [rng_pos example_state ..< rng_pos example_state + 2]
   \<and> [[[[3 / 2]]], [[[6]]]] = interpolation [- 1 / 2, 1 / 2] example_images [[[[3]]], [[[8]]]]
   \<and> [[[[1]]], [[[1]]]]
       = input_gradient example_wgan (discriminator example_wgan (d_vars example_state))
           [[[[3 / 2]]], [[[6]]]]
   \<and> interpolate example_wgan 2 example_images [[[[3]]], [[[8]]]] example_state
       = Inr ([[[[3 / 2]]], [[[6]]]], example_state\<lparr>rng_pos := rng_pos example_state + 2\<rparr>)
   \<and> gradient_penalty example_wgan 2 example_images [[[[3]]], [[[8]]]] example_state
       = Inr (penalty [[[[1]]], [[[1]]]], example_state\<lparr>rng_pos := rng_pos example_state + 2\<rparr>)"
proof -
  have alpha: "[- 1 / 2, 1 / 2]
       = map (normal_draws example_wgan) [rng_pos example_state ..< rng_pos example_state + 2]"
    by (simp add: example_wgan_def example_state_def upt_rec)
  have interp: "[[[[3 / 2]]], [[[6]]]]
       = interpolation [- 1 / 2, 1 / 2] example_images [[[[3]]], [[[8]]]]"
    unfolding alpha by (rule example_interpolation[symmetric])
  show ?thesis
    using gradient_penalty_interpolation[OF example_batches _ _ _ alpha interp
        example_gradient[symmetric]]
      example_batches alpha interp example_gradient
    by simp
qed

subsection \<open>The training step\<close>

lemma reduce_mean_ok:
  assumes "xs \<noteq> []"
  shows "reduce_mean xs = Inr (mean xs)"
  using assms by (simp add: reduce_mean_def mean_def)

lemma discriminator_loss_ok:
  assumes "real_img \<noteq> []" and "fake_img \<noteq> []"
  shows "discriminator_loss real_img fake_img = Inr (mean fake_img - mean real_img)"
  by (simp add: discriminator_loss_def reduce_mean_ok[OF assms(1)] reduce_mean_ok[OF assms(2)]
      then_do_def)

lemma generator_loss_ok:
  assumes "fake_img \<noteq> []"
  shows "generator_loss fake_img = Inr (- mean fake_img)"
  by (simp add: generator_loss_def reduce_mean_ok[OF assms] then_do_def)

lemma length_latent_noise: "length (latent_noise m n pos) = n"
  by (simp add: latent_noise_def reshape_rows_def)

lemma d_forward_ok:
  assumes r: "is_batch n h w c real_images" and f: "is_batch n h w c fake_images"
    and pos: "0 < n" "0 < h" "0 < w"
    and disc: "\<And>vars xs. length (discriminator m vars xs) = length xs"
    and igrad: "\<And>g xs. length (input_gradient m g xs) = length xs"
    and loss: "d_loss_fn m = discriminator_loss"
  shows "d_forward m n real_images fake_images s
         = Inr (critic_objective m real_images fake_images
                  (map (normal_draws m) [rng_pos s ..< rng_pos s + n]) (d_vars s),
                s\<lparr>rng_pos := rng_pos s + n\<rparr>)"
proof -
  define alpha where "alpha = map (normal_draws m) [rng_pos s ..< rng_pos s + n]"
  have lr: "length real_images = n" and lf: "length fake_images = n"
    using r f by (simp_all add: is_batch_def)
  have "discriminator m (d_vars s) real_images \<noteq> []" "discriminator m (d_vars s) fake_images \<noteq> []"
    using disc lr lf pos(1) by (metis length_greater_0_conv)+
  then have cost: "d_loss_fn m (discriminator m (d_vars s) real_images)
                     (discriminator m (d_vars s) fake_images)
      = Inr (mean (discriminator m (d_vars s) fake_images)
             - mean (discriminator m (d_vars s) real_images))"
    unfolding loss by (rule discriminator_loss_ok)
  have i: "interpolate m n real_images fake_images s
      = Inr (interpolation alpha real_images fake_images, s\<lparr>rng_pos := rng_pos s + n\<rparr>)"
    unfolding alpha_def by (rule interpolate_ok[OF r f pos])
  have "length (interpolation alpha real_images fake_images) = n"
    using is_batch_interpolation[OF r pos] by (simp add: is_batch_def)
  then have "input_gradient m (discriminator m (d_vars s))
      (interpolation alpha real_images fake_images) \<noteq> []"
    using igrad pos(1) by (metis length_greater_0_conv)
  from gradient_penalty_eq[OF i this]
  have gp: "gradient_penalty m n real_images fake_images s
      = Inr (penalty (input_gradient m (discriminator m (d_vars s))
               (interpolation alpha real_images fake_images)),
             s\<lparr>rng_pos := rng_pos s + n\<rparr>)" .
  show ?thesis
    unfolding d_forward_def Let_def cost gp then_do_def sum.case prod.case
      critic_objective_def alpha_def[symmetric]
    by (simp add: mult.commute)
qed

lemma d_step_ok:
  assumes r: "is_batch n h w c real_images"
    and pos: "0 < n" "0 < h" "0 < w"
    and gen: "\<And>vars z. is_batch (length z) h w c (generator m vars z)"
    and disc: "\<And>vars xs. length (discriminator m vars xs) = length xs"
    and igrad: "\<And>g xs. length (input_gradient m g xs) = length xs"
    and loss: "d_loss_fn m = discriminator_loss"
  shows "d_step m n real_images s = Inr (discriminator_phase m real_images s)"
proof -
  define p where "p = rng_pos s"
  define s1 where "s1 = s\<lparr>rng_pos := p + n * latent_dim m\<rparr>"
  define fake where "fake = generator m (g_vars s) (latent_noise m n p)"
  define alpha where
    "alpha = map (normal_draws m) [p + n * latent_dim m ..< p + n * latent_dim m + n]"
  have lr: "length real_images = n"
    using r by (simp add: is_batch_def)
  have rn: "random_normal m (n * latent_dim m) 0 1 s
      = (map (normal_draws m) [p ..< p + n * latent_dim m], s1)"
    by (simp add: random_normal_def s1_def p_def)
  have f: "is_batch n h w c fake"
    using gen[of "latent_noise m n p" "g_vars s"] by (simp add: fake_def length_latent_noise)
  have fw: "d_forward m n real_images fake (s1\<lparr>d_vars := vars\<rparr>)
      = Inr (critic_objective m real_images fake alpha vars,
             s1\<lparr>d_vars := vars, rng_pos := p + n * latent_dim m + n\<rparr>)" for vars
    using d_forward_ok[OF r f pos disc igrad loss, of "s1\<lparr>d_vars := vars\<rparr>"]
    by (simp add: s1_def alpha_def)
  have tape: "(\<lambda>vars. then_do (d_forward m n real_images fake (s1\<lparr>d_vars := vars\<rparr>))
                 (\<lambda>(d_loss, _). Inr d_loss))
      = (\<lambda>vars. Inr (critic_objective m real_images fake alpha vars))"
    by (simp add: fw then_do_def)
  have fw1: "d_forward m n real_images fake s1
      = Inr (critic_objective m real_images fake alpha (d_vars s),
             s1\<lparr>rng_pos := p + n * latent_dim m + n\<rparr>)"
    using fw[of "d_vars s"] by (simp add: s1_def)
  have g1: "g_vars s1 = g_vars s"
    by (simp add: s1_def)
  show ?thesis
    unfolding d_step_def rn prod.case Let_def g1
      latent_noise_def[symmetric] fake_def[symmetric]
    unfolding tape fw1
    unfolding then_do_def sum.case prod.case
    unfolding discriminator_phase_def Let_def lr p_def[symmetric] fake_def[symmetric]
      alpha_def[symmetric]
    by (simp add: s1_def split: prod.splits)
qed


lemma length_discriminator_phases:
  "length (fst (discriminator_phases m real_images k s)) = k"
proof (induction k arbitrary: s)
  case 0
  show ?case by simp
next
  case (Suc k)
  obtain l s1 where ph: "discriminator_phase m real_images s = (l, s1)"
    by (cases "discriminator_phase m real_images s")
  obtain ls s2 where rest: "discriminator_phases m real_images k s1 = (ls, s2)"
    by (cases "discriminator_phases m real_images k s1")
  show ?case
    using Suc.IH[of s1] by (simp add: ph rest)
qed

lemma rng_pos_discriminator_phases:
  "rng_pos (snd (discriminator_phases m real_images k s))
   = rng_pos s + k * (length real_images * latent_dim m + length real_images)"
proof (induction k arbitrary: s)
  case 0
  show ?case by simp
next
  case (Suc k)
  obtain l s1 where ph: "discriminator_phase m real_images s = (l, s1)"
    by (cases "discriminator_phase m real_images s")
  then have "rng_pos s1
      = rng_pos s + length real_images * latent_dim m + length real_images"
    by (auto simp: discriminator_phase_def Let_def split: prod.splits)
  moreover obtain ls s2 where rest: "discriminator_phases m real_images k s1 = (ls, s2)"
    by (cases "discriminator_phases m real_images k s1")
  ultimately show ?case
    using Suc.IH[of s1] by (simp add: ph rest)
qed

lemma d_loop_ok:
  assumes r: "is_batch n h w c real_images"
    and pos: "0 < n" "0 < h" "0 < w"
    and gen: "\<And>vars z. is_batch (length z) h w c (generator m vars z)"
    and disc: "\<And>vars xs. length (discriminator m vars xs) = length xs"
    and igrad: "\<And>g xs. length (input_gradient m g xs) = length xs"
    and loss: "d_loss_fn m = discriminator_loss"
  shows "d_loop m n real_images k (acc, s)
         = (case discriminator_phases m real_images k s of
              (losses, s') \<Rightarrow> Inr (if losses = [] then acc else Some (last losses), s'))"
proof (induction k arbitrary: acc s)
  case 0
  show ?case by simp
next
  case (Suc k)
  obtain l s1 where ph: "discriminator_phase m real_images s = (l, s1)"
    by (cases "discriminator_phase m real_images s")
  obtain ls s2 where rest: "discriminator_phases m real_images k s1 = (ls, s2)"
    by (cases "discriminator_phases m real_images k s1")
  have "d_loop m n real_images (Suc k) (acc, s) = d_loop m n real_images k (Some l, s1)"
    by (simp add: d_step_ok[OF r pos gen disc igrad loss] ph then_do_def)
  also have "\<dots> = Inr (if ls = [] then Some l else Some (last ls), s2)"
    unfolding Suc.IH rest by simp
  finally show ?case
    by (simp add: ph rest)
qed

lemma g_step_ok:
  assumes pos: "0 < n"
    and gen: "\<And>vars z. is_batch (length z) h w c (generator m vars z)"
    and disc: "\<And>vars xs. length (discriminator m vars xs) = length xs"
    and loss: "g_loss_fn m = generator_loss"
  shows "g_step m n s = Inr (generator_phase m n s)"
proof -
  define p where "p = rng_pos s"
  define s1 where "s1 = s\<lparr>rng_pos := p + n * latent_dim m\<rparr>"
  have rn: "random_normal m (n * latent_dim m) 0 1 s
      = (map (normal_draws m) [p ..< p + n * latent_dim m], s1)"
    by (simp add: random_normal_def s1_def p_def)
  have "length (generator m vars (latent_noise m n p)) = n" for vars
    using gen[of "latent_noise m n p" vars] by (simp add: is_batch_def length_latent_noise)
  then have "discriminator m dv (generator m vars (latent_noise m n p)) \<noteq> []" for dv vars
    using disc pos by (metis length_greater_0_conv)
  then have at: "g_loss_fn m (discriminator m (d_vars s1)
                              (generator m vars (latent_noise m n p)))
      = Inr (generator_objective m (latent_noise m n p) (d_vars s) vars)" for vars
    unfolding loss by (simp add: generator_loss_ok generator_objective_def s1_def)
  have g1: "g_vars s1 = g_vars s" "g_opt_state s1 = g_opt_state s"
    by (simp_all add: s1_def)
  show ?thesis
    unfolding g_step_def rn prod.case Let_def latent_noise_def[symmetric]
    unfolding at g1
    unfolding then_do_def sum.case
    unfolding generator_phase_def Let_def p_def[symmetric]
    by (simp add: s1_def split: prod.splits)
qed

lemma train_step_ok:
  assumes r: "is_batch n h w c real_images"
    and pos: "0 < n" "0 < h" "0 < w"
    and gen: "\<And>vars z. is_batch (length z) h w c (generator m vars z)"
    and disc: "\<And>vars xs. length (discriminator m vars xs) = length xs"
    and igrad: "\<And>g xs. length (input_gradient m g xs) = length xs"
    and dloss: "d_loss_fn m = discriminator_loss"
    and gloss: "g_loss_fn m = generator_loss"
    and steps: "0 < d_steps m"
  shows "train_step m (Images real_images) s
         = (case discriminator_phases m real_images (d_steps m) s of (d_losses, s1) \<Rightarrow>
            case generator_phase m n s1 of (g_loss, s2) \<Rightarrow>
            Inr ([''d_loss'' \<mapsto> last d_losses, ''g_loss'' \<mapsto> g_loss], s2))"
proof -
  have lr: "length real_images = n"
    using r by (simp add: is_batch_def)
  obtain ls s1 where ph: "discriminator_phases m real_images (d_steps m) s = (ls, s1)"
    by (cases "discriminator_phases m real_images (d_steps m) s")
  then have "length ls = d_steps m"
    using length_discriminator_phases[of m real_images "d_steps m" s] by simp
  then have ne: "ls \<noteq> []"
    using steps by auto
  obtain g s2 where gp: "generator_phase m n s1 = (g, s2)"
    by (cases "generator_phase m n s1")
  show ?thesis
    unfolding train_step_def first_component_def Let_def
    by (simp add: then_do_def lr d_loop_ok[OF r pos gen disc igrad dloss] ph ne
        g_step_ok[OF pos(1) gen disc gloss] gp)
qed

lemma example_shapes:
  "is_batch (length z) 1 1 1 (generator example_wgan vars z)"
  "length (discriminator example_wgan vars xs) = length xs"
  "length (input_gradient example_wgan g xs) = length xs"
  "d_loss_fn example_wgan = discriminator_loss"
  "g_loss_fn example_wgan = generator_loss"
  "d_steps example_wgan = 3"
  by (simp_all add: example_wgan_def is_batch_def is_image_def)

lemma l2_norm_single: "l2_norm [v] = \<bar>v\<bar>"
  by (simp add: l2_norm_def)

lemma example_discriminator_phase:
  "discriminator_phase example_wgan example_images
     \<lparr>d_vars = [a], g_vars = [1], d_opt_state = (), g_opt_state = (), rng_pos = p\<rparr>
   = (a * real p - 3 * a + 10 * (\<bar>a\<bar> - 1)\<^sup>2,
      \<lparr>d_vars = [a - 1 / 2], g_vars = [1], d_opt_state = (), g_opt_state = (),
       rng_pos = p + 4\<rparr>)"
  unfolding discriminator_phase_def Let_def critic_objective_def
  by (simp add: example_wgan_def example_images_def latent_noise_def reshape_rows_def
      interpolation_def batch_height_def batch_width_def batch_depth_def img_height_def
      img_width_def img_depth_def penalty_def mean_def l2_norm_single flatten_def upt_rec
      algebra_simps)

lemma example_discriminator_phases:
  "discriminator_phases example_wgan example_images 3 example_state
   = ([- 3, 3, 10],
      \<lparr>d_vars = [- 1 / 2], g_vars = [1], d_opt_state = (), g_opt_state = (), rng_pos = 12\<rparr>)"
  by (simp add: numeral_3_eq_3 example_state_def example_discriminator_phase power2_eq_square)

lemma example_generator_phase:
  "generator_phase example_wgan 2
     \<lparr>d_vars = [- 1 / 2], g_vars = [1], d_opt_state = (), g_opt_state = (), rng_pos = 12\<rparr>
   = (6, \<lparr>d_vars = [- 1 / 2], g_vars = [1 / 2], d_opt_state = (), g_opt_state = (),
          rng_pos = 14\<rparr>)"
  unfolding generator_phase_def Let_def generator_objective_def
  by (simp add: example_wgan_def latent_noise_def reshape_rows_def mean_def flatten_def upt_rec)

text \<open>
  Claim C4. A training step on a batch of images runs the discriminator phase \<open>d_steps\<close>
  times (3 in the notebook), each with fresh latent noise and one optimizer step on
  \<open>mean fake_score - mean real_score + gp_weight * penalty\<close>, then runs the generator phase
  once, with fresh latent noise and one optimizer step on \<open>- mean fake_score\<close>, and returns
  the loss of the last discriminator phase and the loss of the generator phase. Every
  discriminator phase consumes its own outcomes of the random source: one per entry of
  the latent noise and one interpolation coefficient per image. The
  framework keeps shapes: the generator makes one image of the shape of the real images
  per latent vector, the discriminator one score per image, the input gradient one
  gradient per image; the losses are the notebook's; \<open>d_steps\<close> is positive.
\<close>

theorem train_step_phases:
  assumes "is_batch n h w c real_images"
    and "0 < n" and "0 < h" and "0 < w"
    and "\<And>vars z. is_batch (length z) h w c (generator m vars z)"
    and "\<And>vars xs. length (discriminator m vars xs) = length xs"
    and "\<And>g xs. length (input_gradient m g xs) = length xs"
    and "d_loss_fn m = discriminator_loss"
    and "g_loss_fn m = generator_loss"
    and "0 < d_steps m"
  shows "train_step m (Images real_images) s
         = (case discriminator_phases m real_images (d_steps m) s of (d_losses, s1) \<Rightarrow>
            case generator_phase m n s1 of (g_loss, s2) \<Rightarrow>
            Inr ([''d_loss'' \<mapsto> last d_losses, ''g_loss'' \<mapsto> g_loss], s2))
         \<and> length (fst (discriminator_phases m real_images (d_steps m) s)) = d_steps m
         \<and> rng_pos (snd (discriminator_phases m real_images (d_steps m) s))
           = rng_pos s + d_steps m * (n * latent_dim m + n)"
proof -
  have "length real_images = n"
    using assms(1) by (simp add: is_batch_def)
  then show ?thesis
    using train_step_ok[OF assms] length_discriminator_phases[of m real_images "d_steps m" s]
      rng_pos_discriminator_phases[of m real_images "d_steps m" s]
    by simp
qed

theorem train_step_phases_witness:
  "is_batch 2 1 1 1 example_images
   \<and> d_loss_fn example_wgan = discriminator_loss
   \<and> g_loss_fn example_wgan = generator_loss
   \<and> d_steps example_wgan = 3
   \<and> discriminator_phases example_wgan example_images 3 example_state
       = ([- 3, 3, 10],
          \<lparr>d_vars = [- 1 / 2], g_vars = [1], d_opt_state = (), g_opt_state = (),
           rng_pos = 12\<rparr>)
   \<and> generator_phase example_wgan 2
         \<lparr>d_vars = [- 1 / 2], g_vars = [1], d_opt_state = (), g_opt_state = (), rng_pos = 12\<rparr>
       = (6, \<lparr>d_vars = [- 1 / 2], g_vars = [1 / 2], d_opt_state = (), g_opt_state = (),
              rng_pos = 14\<rparr>)
   \<and> train_step example_wgan (Images example_images) example_state
       = Inr ([''d_loss'' \<mapsto> 10, ''g_loss'' \<mapsto> 6],
              \<lparr>d_vars = [- 1 / 2], g_vars = [1 / 2], d_opt_state = (), g_opt_state = (),
               rng_pos = 14\<rparr>)"
proof -
  have "train_step example_wgan (Images example_images) example_state
      = (case discriminator_phases example_wgan example_images (d_steps example_wgan)
                example_state of (d_losses, s1) \<Rightarrow>
         case generator_phase example_wgan 2 s1 of (g_loss, s2) \<Rightarrow>
         Inr ([''d_loss'' \<mapsto> last d_losses, ''g_loss'' \<mapsto> g_loss], s2))"
  proof -
    have pre: "(0::nat) < 2" "(0::nat) < 1" "0 < d_steps example_wgan"
      by (simp_all add: example_shapes(6))
    show ?thesis
      using train_step_phases[OF example_batches(1) pre(1) pre(2) pre(2)
          example_shapes(1,2,3,4,5) pre(3), of example_state]
      by (rule conjunct1)
  qed
  then have "train_step example_wgan (Images example_images) example_state
      = Inr ([''d_loss'' \<mapsto> 10, ''g_loss'' \<mapsto> 6],
             \<lparr>d_vars = [- 1 / 2], g_vars = [1 / 2], d_opt_state = (), g_opt_state = (),
              rng_pos = 14\<rparr>)"
    unfolding example_shapes(6) example_discriminator_phases prod.case example_generator_phase
    by simp
  then show ?thesis
    using example_batches(1) example_shapes(4,5,6)
      example_discriminator_phases example_generator_phase
    by simp
qed

text \<open>
  Claim C9. When \<^verbatim>\<open>train_step\<close> receives a tuple whose first component is a batch of
  images, that batch is the real-image batch of the training step: the step runs the
  \<open>d_steps\<close> discriminator phases and the generator phase on it, with its length as batch
  size, and returns their losses. The other components of the tuple occur nowhere in the
  result, which is the result of the call on the bare batch. The conditions on the batch
  and on the framework are those of claim C4.
\<close>

theorem train_step_tuple_first_component:
  assumes "is_batch n h w c real_images"
    and "0 < n" and "0 < h" and "0 < w"
    and "\<And>vars z. is_batch (length z) h w c (generator m vars z)"
    and "\<And>vars xs. length (discriminator m vars xs) = length xs"
    and "\<And>g xs. length (input_gradient m g xs) = length xs"
    and "d_loss_fn m = discriminator_loss"
    and "g_loss_fn m = generator_loss"
    and "0 < d_steps m"
  shows "train_step m (Tuple (Images real_images # rest)) s
         = (case discriminator_phases m real_images (d_steps m) s of (d_losses, s1) \<Rightarrow>
            case generator_phase m (length real_images) s1 of (g_loss, s2) \<Rightarrow>
            Inr ([''d_loss'' \<mapsto> last d_losses, ''g_loss'' \<mapsto> g_loss], s2))
         \<and> train_step m (Tuple (Images real_images # rest)) s
           = train_step m (Images real_images) s"
proof -
  have first: "train_step m (Tuple (Images real_images # rest)) s
      = train_step m (Images real_images) s"
    by (simp add: train_step_def first_component_def then_do_def)
  have len: "length real_images = n"
    using assms(1) by (simp add: is_batch_def)
  have "train_step m (Tuple (Images real_images # rest)) s
      = (case discriminator_phases m real_images (d_steps m) s of (d_losses, s1) \<Rightarrow>
         case generator_phase m n s1 of (g_loss, s2) \<Rightarrow>
         Inr ([''d_loss'' \<mapsto> last d_losses, ''g_loss'' \<mapsto> g_loss], s2))"
    by (rule trans[OF first train_step_ok[OF assms]])
  then show ?thesis
    unfolding len using first by (rule conjI)
qed

theorem train_step_tuple_first_component_witness:
  "is_batch 2 1 1 1 example_images
   \<and> d_loss_fn example_wgan = discriminator_loss
   \<and> g_loss_fn example_wgan = generator_loss
   \<and> d_steps example_wgan = 3
   \<and> train_step example_wgan (Tuple [Images example_images, Other [3, 5 :: nat]]) example_state
       = Inr ([''d_loss'' \<mapsto> 10, ''g_loss'' \<mapsto> 6],
              \<lparr>d_vars = [- 1 / 2], g_vars = [1 / 2], d_opt_state = (), g_opt_state = (),
               rng_pos = 14\<rparr>)
   \<and> train_step example_wgan (Tuple [Images example_images, Other [3, 5 :: nat]]) example_state
       = train_step example_wgan (Images example_images) example_state"
proof -
  have pre: "(0::nat) < 2" "(0::nat) < 1" "0 < d_steps example_wgan"
    by (simp_all add: example_shapes(6))
  have len: "length example_images = 2"
    by (simp add: example_images_def)
  note step = train_step_tuple_first_component[OF example_batches(1) pre(1) pre(2) pre(2)
      example_shapes(1,2,3,4,5) pre(3), of "[Other [3, 5 :: nat]]" example_state]
  have "train_step example_wgan (Tuple [Images example_images, Other [3, 5 :: nat]])
          example_state
      = Inr ([''d_loss'' \<mapsto> 10, ''g_loss'' \<mapsto> 6],
             \<lparr>d_vars = [- 1 / 2], g_vars = [1 / 2], d_opt_state = (), g_opt_state = (),
              rng_pos = 14\<rparr>)"
    using step[THEN conjunct1]
    unfolding example_shapes(6) len example_discriminator_phases prod.case
      example_generator_phase
    by simp
  then show ?thesis
    using step[THEN conjunct2] example_batches(1) example_shapes(4,5,6) by simp
qed

subsection \<open>What a training step changes\<close>

lemma d_forward_state:
  assumes "d_forward m batch_size real_images fake_images s = Inr (d_loss, s')"
  shows "s' = s\<lparr>rng_pos := rng_pos s + batch_size\<rparr>"
  using assms gradient_penalty_state[of m batch_size real_images fake_images s]
  by (auto simp: d_forward_def then_do_def Let_def split: sum.splits)

lemma d_step_keeps_variables:
  assumes opt: "\<And>slots g v. length g = length v \<Longrightarrow> snd (d_optimizer m slots (zip g v)) = v"
    and grad: "\<And>f v. length (variable_gradient m f v) = length v"
    and step: "d_step m batch_size real_images s = Inr (d_loss, s')"
  shows "d_vars s' = d_vars s \<and> g_vars s' = g_vars s"
proof -
  define s1 where "s1 = s\<lparr>rng_pos := rng_pos s + batch_size * latent_dim m\<rparr>"
  define fake where "fake = generator m (g_vars s1)
      (reshape_rows batch_size (latent_dim m)
         (map (\<lambda>k. 0 + 1 * normal_draws m k) [rng_pos s ..< rng_pos s + batch_size * latent_dim m]))"
  obtain l s2 where fw: "d_forward m batch_size real_images fake s1 = Inr (l, s2)"
    using step unfolding d_step_def random_normal_def prod.case Let_def s1_def[symmetric]
      fake_def[symmetric]
    by (cases "d_forward m batch_size real_images fake s1") (auto simp: then_do_def)
  have s2: "d_vars s2 = d_vars s" "g_vars s2 = g_vars s"
    using d_forward_state[OF fw] by (simp_all add: s1_def)
  obtain tape where s': "s' = s2\<lparr>d_vars := snd (d_optimizer m (d_opt_state s2)
        (zip (variable_gradient m tape (d_vars s2)) (d_vars s2))),
      d_opt_state := fst (d_optimizer m (d_opt_state s2)
        (zip (variable_gradient m tape (d_vars s2)) (d_vars s2)))\<rparr>"
    using step unfolding d_step_def random_normal_def prod.case Let_def s1_def[symmetric]
      fake_def[symmetric] fw then_do_def sum.case
    by (auto simp: case_prod_beta)
  show ?thesis
    unfolding s' using opt[OF grad] s2 by simp
qed

lemma d_loop_keeps_variables:
  assumes opt: "\<And>slots g v. length g = length v \<Longrightarrow> snd (d_optimizer m slots (zip g v)) = v"
    and grad: "\<And>f v. length (variable_gradient m f v) = length v"
    and loop: "d_loop m batch_size real_images k (acc, s) = Inr (d_loss, s')"
  shows "d_vars s' = d_vars s \<and> g_vars s' = g_vars s"
  using loop
proof (induction k arbitrary: acc s)
  case 0
  then show ?case by simp
next
  case (Suc k)
  then obtain l s1 where step: "d_step m batch_size real_images s = Inr (l, s1)"
    and rest: "d_loop m batch_size real_images k (Some l, s1) = Inr (d_loss, s')"
    by (cases "d_step m batch_size real_images s") (auto simp: then_do_def)
  show ?case
    using d_step_keeps_variables[OF opt grad step] Suc.IH[OF rest] by simp
qed

lemma g_step_keeps_variables:
  assumes opt: "\<And>slots g v. length g = length v \<Longrightarrow> snd (g_optimizer m slots (zip g v)) = v"
    and grad: "\<And>f v. length (variable_gradient m f v) = length v"
    and step: "g_step m batch_size s = Inr (g_loss, s')"
  shows "d_vars s' = d_vars s \<and> g_vars s' = g_vars s"
proof -
  define s1 where "s1 = s\<lparr>rng_pos := rng_pos s + batch_size * latent_dim m\<rparr>"
  obtain tape where s': "s' = s1\<lparr>g_vars := snd (g_optimizer m (g_opt_state s1)
        (zip (variable_gradient m tape (g_vars s1)) (g_vars s1))),
      g_opt_state := fst (g_optimizer m (g_opt_state s1)
        (zip (variable_gradient m tape (g_vars s1)) (g_vars s1)))\<rparr>"
    using step unfolding g_step_def random_normal_def prod.case Let_def s1_def[symmetric]
    by (auto simp: then_do_def case_prod_beta split: sum.splits)
  show ?thesis
    unfolding s' using opt[OF grad] by (simp add: s1_def)
qed

lemma example_gradient_penalty:
  "gradient_penalty example_wgan 2 example_images [[[[3]]], [[[8]]]] example_state
   = Inr (0, example_state\<lparr>rng_pos := 2\<rparr>)"
proof -
  have "penalty [[[[1]]], [[[1]]]] = 0"
    by (simp add: penalty_def mean_def l2_norm_def flatten_def)
  then show ?thesis
    using gradient_penalty_eq[OF example_interpolate] by (simp add: example_gradient)
qed

lemma frozen_shapes:
  "is_batch (length z) 1 1 1 (generator frozen_wgan vars z)"
  "length (discriminator frozen_wgan vars xs) = length xs"
  "length (input_gradient frozen_wgan g xs) = length xs"
  "d_loss_fn frozen_wgan = discriminator_loss"
  "g_loss_fn frozen_wgan = generator_loss"
  "d_steps frozen_wgan = 3"
  "length g' = length v \<Longrightarrow> snd (d_optimizer frozen_wgan slots (zip g' v)) = v"
  "length g' = length v \<Longrightarrow> snd (g_optimizer frozen_wgan slots (zip g' v)) = v"
  "length (variable_gradient frozen_wgan f v) = length v"
  by (simp_all add: frozen_wgan_def example_wgan_def is_batch_def is_image_def)

lemma frozen_discriminator_phase:
  "discriminator_phase frozen_wgan example_images
     \<lparr>d_vars = [1], g_vars = [1], d_opt_state = (), g_opt_state = (), rng_pos = p\<rparr>
   = (real p - 3,
      \<lparr>d_vars = [1], g_vars = [1], d_opt_state = (), g_opt_state = (), rng_pos = p + 4\<rparr>)"
  unfolding discriminator_phase_def Let_def critic_objective_def
  by (simp add: frozen_wgan_def example_wgan_def example_images_def latent_noise_def
      reshape_rows_def interpolation_def batch_height_def batch_width_def batch_depth_def
      img_height_def img_width_def img_depth_def penalty_def mean_def l2_norm_single
      flatten_def upt_rec algebra_simps)

lemma frozen_train_step:
  "train_step frozen_wgan (Images example_images) example_state
   = Inr ([''d_loss'' \<mapsto> 5, ''g_loss'' \<mapsto> - 12], example_state\<lparr>rng_pos := 14\<rparr>)"
proof -
  have d: "discriminator_phases frozen_wgan example_images 3 example_state
      = ([- 3, 1, 5],
         \<lparr>d_vars = [1], g_vars = [1], d_opt_state = (), g_opt_state = (), rng_pos = 12\<rparr>)"
    by (simp add: numeral_3_eq_3 example_state_def frozen_discriminator_phase)
  have g: "generator_phase frozen_wgan 2
       \<lparr>d_vars = [1], g_vars = [1], d_opt_state = (), g_opt_state = (), rng_pos = 12\<rparr>
      = (- 12, \<lparr>d_vars = [1], g_vars = [1], d_opt_state = (), g_opt_state = (),
                rng_pos = 14\<rparr>)"
    unfolding generator_phase_def Let_def generator_objective_def
    by (simp add: frozen_wgan_def example_wgan_def latent_noise_def reshape_rows_def mean_def
        flatten_def upt_rec)
  have "train_step frozen_wgan (Images example_images) example_state
      = Inr ([''d_loss'' \<mapsto> 5, ''g_loss'' \<mapsto> - 12],
             \<lparr>d_vars = [1], g_vars = [1], d_opt_state = (), g_opt_state = (), rng_pos = 14\<rparr>)"
    using train_step_ok[OF example_batches(1) _ _ _ frozen_shapes(1,2,3,4,5), of example_state]
    unfolding frozen_shapes(6) d prod.case g by simp
  then show ?thesis
    by (simp add: example_state_def)
qed

text \<open>
  Claim C10. A call of \<^verbatim>\<open>gradient_penalty\<close> leaves the trainable variables of both
  networks and the slots of both optimizers as they are. In \<^verbatim>\<open>train_step\<close> the variables
  change through the two optimizers only: with optimizers that return the variables they
  are given (and a gradient per variable), a training step leaves the variables of both
  networks as they are.
\<close>

theorem gradient_penalty_frame:
  "(gradient_penalty m batch_size real_images fake_images s = Inr (gp, s')
      \<longrightarrow> d_vars s' = d_vars s \<and> g_vars s' = g_vars s
          \<and> d_opt_state s' = d_opt_state s \<and> g_opt_state s' = g_opt_state s)
   \<and> ((\<forall>slots g v. length g = length v \<longrightarrow> snd (d_optimizer m slots (zip g v)) = v)
        \<and> (\<forall>slots g v. length g = length v \<longrightarrow> snd (g_optimizer m slots (zip g v)) = v)
        \<and> (\<forall>f v. length (variable_gradient m f v) = length v)
        \<and> train_step m real_data s = Inr (losses, s'')
      \<longrightarrow> d_vars s'' = d_vars s \<and> g_vars s'' = g_vars s)"
proof (intro conjI impI)
  assume "gradient_penalty m batch_size real_images fake_images s = Inr (gp, s')"
  from gradient_penalty_state[OF this]
  show "d_vars s' = d_vars s" "g_vars s' = g_vars s"
    "d_opt_state s' = d_opt_state s" "g_opt_state s' = g_opt_state s"
    by simp_all
next
  assume a: "(\<forall>slots g v. length g = length v \<longrightarrow> snd (d_optimizer m slots (zip g v)) = v)
        \<and> (\<forall>slots g v. length g = length v \<longrightarrow> snd (g_optimizer m slots (zip g v)) = v)
        \<and> (\<forall>f v. length (variable_gradient m f v) = length v)
        \<and> train_step m real_data s = Inr (losses, s'')"
  then have dopt: "\<And>slots g v. length g = length v \<Longrightarrow> snd (d_optimizer m slots (zip g v)) = v"
    and gopt: "\<And>slots g v. length g = length v \<Longrightarrow> snd (g_optimizer m slots (zip g v)) = v"
    and grad: "\<And>f v. length (variable_gradient m f v) = length v"
    and run: "train_step m real_data s = Inr (losses, s'')"
    by blast+
  from run obtain real_images d_loss s1 g_loss where
    loop: "d_loop m (length real_images) real_images (d_steps m) (None, s) = Inr (d_loss, s1)"
    and gen: "g_step m (length real_images) s1 = Inr (g_loss, s'')"
    unfolding train_step_def Let_def then_do_def
    by (auto split: sum.splits train_data.splits option.splits)
  have "d_vars s1 = d_vars s \<and> g_vars s1 = g_vars s"
    by (rule d_loop_keeps_variables[OF dopt grad loop])
  moreover have "d_vars s'' = d_vars s1 \<and> g_vars s'' = g_vars s1"
    by (rule g_step_keeps_variables[OF gopt grad gen])
  ultimately show "d_vars s'' = d_vars s" "g_vars s'' = g_vars s"
    by simp_all
qed

theorem gradient_penalty_frame_witness:
  "gradient_penalty example_wgan 2 example_images [[[[3]]], [[[8]]]] example_state
     = Inr (0, example_state\<lparr>rng_pos := 2\<rparr>)
   \<and> d_vars (example_state\<lparr>rng_pos := 2\<rparr>) = d_vars example_state
   \<and> g_vars (example_state\<lparr>rng_pos := 2\<rparr>) = g_vars example_state
   \<and> d_opt_state (example_state\<lparr>rng_pos := 2\<rparr>) = d_opt_state example_state
   \<and> g_opt_state (example_state\<lparr>rng_pos := 2\<rparr>) = g_opt_state example_state
   \<and> train_step frozen_wgan (Images example_images) example_state
     = Inr ([''d_loss'' \<mapsto> 5, ''g_loss'' \<mapsto> - 12], example_state\<lparr>rng_pos := 14\<rparr>)
   \<and> d_vars (example_state\<lparr>rng_pos := 14\<rparr>) = d_vars example_state
   \<and> g_vars (example_state\<lparr>rng_pos := 14\<rparr>) = g_vars example_state"
  using gradient_penalty_frame[of example_wgan 2 example_images "[[[[3]]], [[[8]]]]"
      example_state 0 "example_state\<lparr>rng_pos := 2\<rparr>" "Images example_images"
      "[''d_loss'' \<mapsto> 5, ''g_loss'' \<mapsto> - 12]" "example_state\<lparr>rng_pos := 14\<rparr>"]
    gradient_penalty_frame[of frozen_wgan 2 example_images "[[[[3]]], [[[8]]]]"
      example_state 0 "example_state\<lparr>rng_pos := 2\<rparr>" "Images example_images"
      "[''d_loss'' \<mapsto> 5, ''g_loss'' \<mapsto> - 12]" "example_state\<lparr>rng_pos := 14\<rparr>"]
    example_gradient_penalty frozen_train_step frozen_shapes(7,8,9)
  by simp

end
